theory Spec2Isabelle
  imports Complex_Main "HOL-Library.Sublist" "HOL-Library.Signed_Division"
begin

section \<open>Errors and control flow\<close>

text \<open>
  The program stops in two ways: \<^verbatim>\<open>log.Fatal\<close> (the message is logged and the
  process exits) and a run-time panic (a shape mismatch inside the matrix library, an
  index out of range, a division by zero).  Both are values of the model; a function
  that stops returns no state.
\<close>

datatype error = Fatal string | Panic string

definition andThen :: "error + 'a \<Rightarrow> ('a \<Rightarrow> error + 'b) \<Rightarrow> error + 'b" where
  "andThen m f = (case m of Inl e \<Rightarrow> Inl e | Inr x \<Rightarrow> f x)"

text \<open>A counted \<^verbatim>\<open>for\<close> loop over the given indices, threading the loop state.\<close>

fun forM :: "nat list \<Rightarrow> (nat \<Rightarrow> 's \<Rightarrow> error + 's) \<Rightarrow> 's \<Rightarrow> error + 's" where
  "forM [] body s = Inr s"
| "forM (i # is) body s = andThen (body i s) (forM is body)"

text \<open>Go's \<^verbatim>\<open>xs[i]\<close>: an index outside the slice panics.\<close>

definition index :: "'a list \<Rightarrow> nat \<Rightarrow> error + 'a" where
  "index xs i = (if i < length xs then Inr (xs ! i) else Inl (Panic ''index out of range''))"

section \<open>Matrix values\<close>

text \<open>
  \<^verbatim>\<open>float64\<close> is idealised as \<^typ>\<open>real\<close>: the development is about which matrices
  are combined by which operations, not about rounding.  A matrix value is its two
  dimensions and its entries in row-major order.
\<close>

record mx =
  nr :: nat
  nc :: nat
  el :: "real list"

definition entry :: "mx \<Rightarrow> nat \<Rightarrow> nat \<Rightarrow> real" where
  "entry A i j = el A ! (i * nc A + j)"

definition mk :: "nat \<Rightarrow> nat \<Rightarrow> (nat \<Rightarrow> nat \<Rightarrow> real) \<Rightarrow> mx" where
  "mk r c f = \<lparr>nr = r, nc = c, el = map (\<lambda>k. f (k div c) (k mod c)) [0..<r * c]\<rparr>"

definition mtrans :: "mx \<Rightarrow> mx" where
  "mtrans A = mk (nc A) (nr A) (\<lambda>i j. entry A j i)"

definition mmul :: "mx \<Rightarrow> mx \<Rightarrow> mx" where
  "mmul A B = mk (nr A) (nc B) (\<lambda>i j. sum_list (map (\<lambda>k. entry A i k * entry B k j) [0..<nc A]))"

definition madd :: "mx \<Rightarrow> mx \<Rightarrow> mx" where
  "madd A B = mk (nr A) (nc A) (\<lambda>i j. entry A i j + entry B i j)"

definition msub :: "mx \<Rightarrow> mx \<Rightarrow> mx" where
  "msub A B = mk (nr A) (nc A) (\<lambda>i j. entry A i j - entry B i j)"

definition mhad :: "mx \<Rightarrow> mx \<Rightarrow> mx" where
  "mhad A B = mk (nr A) (nc A) (\<lambda>i j. entry A i j * entry B i j)"

definition mapply :: "(nat \<Rightarrow> nat \<Rightarrow> real \<Rightarrow> real) \<Rightarrow> mx \<Rightarrow> mx" where
  "mapply fn A = mk (nr A) (nc A) (\<lambda>i j. fn i j (entry A i j))"

definition mscale :: "real \<Rightarrow> mx \<Rightarrow> mx" where
  "mscale s A = mk (nr A) (nc A) (\<lambda>i j. s * entry A i j)"

definition mzero :: "nat \<Rightarrow> nat \<Rightarrow> mx" where
  "mzero r c = mk r c (\<lambda>i j. 0)"

section \<open>The matrix library: \<^verbatim>\<open>mat64.Dense\<close> over an explicit store\<close>

text \<open>
  A \<^verbatim>\<open>mat64.Dense\<close> is a header (dimensions, stride, capacities) around a Go slice
  of \<^verbatim>\<open>float64\<close>.  Copying the struct copies the header and shares the backing array,
  so the arrays live in a store: array number \<open>a\<close> is \<open>h ! a\<close>, and an allocation
  appends a new array.  Every slice of this program starts at the first cell of its
  array, hence a slice is the array and a length, and its capacity is the length of the
  array.  The nil slice has no array and capacity 0.
\<close>

type_synonym heap = "real list list"

datatype slice = NilSlice | Slice nat nat

record dense =
  Rows :: nat
  Cols :: nat
  Stride :: nat
  Data :: slice
  capRows :: nat
  capCols :: nat

text \<open>The zero value \<^verbatim>\<open>var m mat64.Dense\<close>.\<close>

definition zeroDense :: dense where
  "zeroDense = \<lparr>Rows = 0, Cols = 0, Stride = 0, Data = NilSlice, capRows = 0, capCols = 0\<rparr>"

fun cap :: "heap \<Rightarrow> slice \<Rightarrow> nat" where
  "cap h NilSlice = 0"
| "cap h (Slice a l) = length (h ! a)"

fun cells :: "heap \<Rightarrow> slice \<Rightarrow> real list" where
  "cells h NilSlice = []"
| "cells h (Slice a l) = take l (h ! a)"

text \<open>\<^verbatim>\<open>f[:l]\<close>, for \<open>l\<close> within the capacity.\<close>

fun reslice :: "slice \<Rightarrow> nat \<Rightarrow> slice" where
  "reslice NilSlice l = NilSlice"
| "reslice (Slice a k) l = Slice a l"

text \<open>
  \<^verbatim>\<open>use(f, l)\<close> of the library: the slice \<open>f\<close> cut to \<open>l\<close> cells when its capacity
  suffices, a new array of \<open>l\<close> cells otherwise.
\<close>

definition use :: "slice \<Rightarrow> nat \<Rightarrow> heap \<Rightarrow> slice \<times> heap" where
  "use f l h = (if l \<le> cap h f then (reslice f l, h)
                else (Slice (length h) l, h @ [replicate l 0]))"

definition raw :: "heap \<Rightarrow> dense \<Rightarrow> nat \<Rightarrow> nat \<Rightarrow> real" where
  "raw h m i j = cells h (Data m) ! (i * Stride m + j)"

text \<open>The value a header denotes in a store.\<close>

definition val :: "heap \<Rightarrow> dense \<Rightarrow> mx" where
  "val h m = mk (Rows m) (Cols m) (raw h m)"

text \<open>
  The \<^verbatim>\<open>Matrix\<close> interface has two implementations in this program: a
  \<^verbatim>\<open>*Dense\<close> and the \<^verbatim>\<open>Transpose\<close> that \<^verbatim>\<open>T()\<close> wraps around one.
\<close>

datatype matrix = M dense | T dense

fun mval :: "heap \<Rightarrow> matrix \<Rightarrow> mx" where
  "mval h (M d) = val h d"
| "mval h (T d) = mtrans (val h d)"

definition hdr :: "nat \<Rightarrow> nat \<Rightarrow> slice \<Rightarrow> dense" where
  "hdr r c d = \<lparr>Rows = r, Cols = c, Stride = c, Data = d, capRows = r, capCols = c\<rparr>"

text \<open>
  \<^verbatim>\<open>NewDense(r, c, nil)\<close> allocates \<open>r * c\<close> zeroed cells.  A negative dimension is
  a panic of the model (\<^verbatim>\<open>make\<close> panics on a negative length).
\<close>

definition NewDense :: "int \<Rightarrow> int \<Rightarrow> heap \<Rightarrow> error + (dense \<times> heap)" where
  "NewDense r c h =
     (if r < 0 \<or> c < 0 then Inl (Panic ''makeslice: len out of range'')
      else Inr (hdr (nat r) (nat c) (Slice (length h) (nat (r * c))),
                h @ [replicate (nat (r * c)) 0]))"

definition isZero :: "dense \<Rightarrow> bool" where
  "isZero m = (Stride m = 0)"

text \<open>
  \<^verbatim>\<open>Reset\<close> zeroes the dimensions and keeps the backing array:
  \<^verbatim>\<open>m.mat.Data = m.mat.Data[:0]\<close>.
\<close>

definition Reset :: "dense \<Rightarrow> dense" where
  "Reset m = \<lparr>Rows = 0, Cols = 0, Stride = 0, Data = reslice (Data m) 0,
              capRows = 0, capCols = 0\<rparr>"

text \<open>
  \<^verbatim>\<open>reuseAs(r, c)\<close>: an empty receiver takes the shape, reusing its backing array
  through \<^verbatim>\<open>use\<close>; any other receiver must have the shape already.
\<close>

definition reuseAs :: "dense \<Rightarrow> nat \<Rightarrow> nat \<Rightarrow> heap \<Rightarrow> error + (dense \<times> heap)" where
  "reuseAs m r c h =
     (if Rows m > capRows m \<or> Cols m > capCols m
      then Inl (Panic ''mat64: caps not correctly set'')
      else if isZero m
      then (let (d, h') = use (Data m) (r * c) h in Inr (hdr r c d, h'))
      else if r \<noteq> Rows m \<or> c \<noteq> Cols m then Inl (Panic ''matrix: dimension mismatch'')
      else Inr (m, h))"

text \<open>Writing the entries of a receiver, row-major from the first cell of its slice.\<close>

definition store :: "heap \<Rightarrow> dense \<Rightarrow> real list \<Rightarrow> heap" where
  "store h m xs = (case Data m of NilSlice \<Rightarrow> h
                   | Slice a l \<Rightarrow> h[a := xs @ drop (length xs) (h ! a)])"

text \<open>
  Every operation ends the same way: the receiver is shaped with \<^verbatim>\<open>reuseAs\<close>
  and the entries of the result are written into it.  An operation returns the
  receiver's header, which the call may have changed, and the store.
\<close>

definition assign :: "dense \<Rightarrow> nat \<Rightarrow> nat \<Rightarrow> real list \<Rightarrow> heap \<Rightarrow> error + (dense \<times> heap)" where
  "assign m r c xs h = andThen (reuseAs m r c h) (\<lambda>(m', h'). Inr (m', store h' m' xs))"

definition Mul :: "dense \<Rightarrow> matrix \<Rightarrow> matrix \<Rightarrow> heap \<Rightarrow> error + (dense \<times> heap)" where
  "Mul m a b h =
     (if nc (mval h a) \<noteq> nr (mval h b) then Inl (Panic ''matrix: dimension mismatch'')
      else assign m (nr (mval h a)) (nc (mval h b)) (el (mmul (mval h a) (mval h b))) h)"

definition Add :: "dense \<Rightarrow> matrix \<Rightarrow> matrix \<Rightarrow> heap \<Rightarrow> error + (dense \<times> heap)" where
  "Add m a b h =
     (if nr (mval h a) \<noteq> nr (mval h b) \<or> nc (mval h a) \<noteq> nc (mval h b)
      then Inl (Panic ''matrix: dimension mismatch'')
      else assign m (nr (mval h a)) (nc (mval h a)) (el (madd (mval h a) (mval h b))) h)"

definition Sub :: "dense \<Rightarrow> matrix \<Rightarrow> matrix \<Rightarrow> heap \<Rightarrow> error + (dense \<times> heap)" where
  "Sub m a b h =
     (if nr (mval h a) \<noteq> nr (mval h b) \<or> nc (mval h a) \<noteq> nc (mval h b)
      then Inl (Panic ''matrix: dimension mismatch'')
      else assign m (nr (mval h a)) (nc (mval h a)) (el (msub (mval h a) (mval h b))) h)"

definition MulElem :: "dense \<Rightarrow> matrix \<Rightarrow> matrix \<Rightarrow> heap \<Rightarrow> error + (dense \<times> heap)" where
  "MulElem m a b h =
     (if nr (mval h a) \<noteq> nr (mval h b) \<or> nc (mval h a) \<noteq> nc (mval h b)
      then Inl (Panic ''matrix: dimension mismatch'')
      else assign m (nr (mval h a)) (nc (mval h a)) (el (mhad (mval h a) (mval h b))) h)"

definition Apply :: "(nat \<Rightarrow> nat \<Rightarrow> real \<Rightarrow> real) \<Rightarrow> dense \<Rightarrow> matrix \<Rightarrow> heap
                     \<Rightarrow> error + (dense \<times> heap)" where
  "Apply fn m a h = assign m (nr (mval h a)) (nc (mval h a)) (el (mapply fn (mval h a))) h"

text \<open>\<^verbatim>\<open>Clone\<close> replaces the receiver by a copy of its argument in a new array.\<close>

definition Clone :: "matrix \<Rightarrow> heap \<Rightarrow> error + (dense \<times> heap)" where
  "Clone a h =
     (let A = mval h a in
      Inr (hdr (nr A) (nc A) (Slice (length h) (nr A * nc A)), h @ [el A]))"

definition At :: "dense \<Rightarrow> nat \<Rightarrow> nat \<Rightarrow> heap \<Rightarrow> error + real" where
  "At m i j h =
     (if Rows m \<le> i then Inl (Panic ''matrix: row index out of range'')
      else if Cols m \<le> j then Inl (Panic ''matrix: column index out of range'')
      else index (cells h (Data m)) (i * Stride m + j))"

definition Set :: "dense \<Rightarrow> nat \<Rightarrow> nat \<Rightarrow> real \<Rightarrow> heap \<Rightarrow> error + heap" where
  "Set m i j v h =
     (if Rows m \<le> i then Inl (Panic ''matrix: row index out of range'')
      else if Cols m \<le> j then Inl (Panic ''matrix: column index out of range'')
      else (case Data m of
              NilSlice \<Rightarrow> Inl (Panic ''index out of range'')
            | Slice a l \<Rightarrow>
                if i * Stride m + j < l
                then Inr (h[a := (h ! a)[i * Stride m + j := v]])
                else Inl (Panic ''index out of range'')))"

definition Caps :: "dense \<Rightarrow> nat \<times> nat" where
  "Caps m = (capRows m, capCols m)"

section \<open>The network\<close>

text \<open>
  The \<^verbatim>\<open>*mat64.Dense\<close> fields are modelled by the headers they point to; the
  program never re-points one after \<^verbatim>\<open>Init\<close>.  The acceptance predicate only
  reads its two arguments, so it is a predicate on their values.
\<close>

record Network =
  NumLayers :: int
  Sizes :: dense
  Weights :: "dense list"
  Biases :: "dense list"
  TestFunc :: "(mx \<Rightarrow> mx \<Rightarrow> bool) option"

definition sigmoid :: "real \<Rightarrow> real" where
  "sigmoid z = 1 / (1 + exp (- z))"

definition sigmoidMatrix :: "nat \<Rightarrow> nat \<Rightarrow> real \<Rightarrow> real" where
  "sigmoidMatrix i j v = sigmoid v"

definition sigmoidPrimeMatrix :: "nat \<Rightarrow> nat \<Rightarrow> real \<Rightarrow> real" where
  "sigmoidPrimeMatrix i j v = sigmoid v * (1 - sigmoid v)"

subsection \<open>Init\<close>

text \<open>
  \<open>rnd\<close> is the sequence of values that \<^verbatim>\<open>rand.NormFloat64\<close> returns to this call;
  the loop state carries the number of draws made so far.
\<close>

definition init_sizes :: "dense \<Rightarrow> int list \<Rightarrow> nat \<Rightarrow> heap \<Rightarrow> error + heap" where
  "init_sizes s sz i h = Set s 0 i (of_int (sz ! i)) h"

definition init_cell :: "dense \<Rightarrow> (nat \<Rightarrow> real) \<Rightarrow> nat \<Rightarrow> nat \<Rightarrow> nat \<times> heap
                         \<Rightarrow> error + (nat \<times> heap)" where
  "init_cell w rnd j k = (\<lambda>(d, h).
     andThen (Set w j k (rnd d) h) (\<lambda>h. Inr (Suc d, h)))"

definition init_layer :: "int list \<Rightarrow> (nat \<Rightarrow> real) \<Rightarrow> nat
     \<Rightarrow> dense list \<times> dense list \<times> nat \<times> heap \<Rightarrow> error + (dense list \<times> dense list \<times> nat \<times> heap)" where
  "init_layer sz rnd i = (\<lambda>(ws, bs, d, h).
     andThen (NewDense (sz ! i) (sz ! (i + 1)) h) (\<lambda>(w, h).
     andThen (forM [0..<nat (sz ! i)] (\<lambda>j. forM [0..<nat (sz ! (i + 1))] (init_cell w rnd j))
                (d, h)) (\<lambda>(d, h).
     andThen (NewDense 1 (sz ! (i + 1)) h) (\<lambda>(b, h).
     andThen (forM [0..<nat (sz ! (i + 1))] (init_cell b rnd 0) (d, h)) (\<lambda>(d, h).
     Inr (ws[i := w], bs[i := b], d, h))))))"

definition Init :: "int list \<Rightarrow> (nat \<Rightarrow> real) \<Rightarrow> heap \<Rightarrow> error + (Network \<times> heap)" where
  "Init sz rnd h =
     (let numLayers = int (length sz) in
      if numLayers < 2 then Inl (Fatal ''Need a minimum of two layers in the network'')
      else
        andThen (NewDense 1 numLayers h) (\<lambda>(s, h).
        andThen (forM [0..<length sz] (init_sizes s sz) h) (\<lambda>h.
        andThen (forM [0..<nat (numLayers - 1)] (init_layer sz rnd)
                   (replicate (nat (numLayers - 1)) zeroDense,
                    replicate (nat (numLayers - 1)) zeroDense, 0, h)) (\<lambda>(ws, bs, d, h).
        Inr (\<lparr>NumLayers = numLayers, Sizes = s, Weights = ws, Biases = bs, TestFunc = None\<rparr>,
             h)))))"

subsection \<open>FeedForward\<close>

text \<open>
  The loop state is the header \<^verbatim>\<open>*ptr\<close> and the store; \<^verbatim>\<open>w\<close> is a new zero
  value in every iteration.
\<close>

definition ff_layer :: "Network \<Rightarrow> nat \<Rightarrow> dense \<times> heap \<Rightarrow> error + (dense \<times> heap)" where
  "ff_layer n i = (\<lambda>(ptr, h).
     andThen (index (Weights n) i) (\<lambda>wi.
     andThen (Mul zeroDense (M ptr) (M wi) h) (\<lambda>(w, h).
     andThen (index (Biases n) i) (\<lambda>bi.
     andThen (Add w (M w) (M bi) h) (\<lambda>(w, h).
     Apply sigmoidMatrix w (M w) h)))))"

definition FeedForward :: "Network \<Rightarrow> dense \<Rightarrow> heap \<Rightarrow> error + (dense \<times> heap)" where
  "FeedForward n input h = forM [0..<nat (NumLayers n - 1)] (ff_layer n) (input, h)"

subsection \<open>Backpropagation\<close>

definition quadraticCost :: "dense \<Rightarrow> dense \<Rightarrow> heap \<Rightarrow> error + (dense \<times> heap)" where
  "quadraticCost output desiredOutput h = Sub zeroDense (M output) (M desiredOutput) h"

text \<open>The forward loop: state \<^verbatim>\<open>activations\<close>, \<^verbatim>\<open>zs\<close> and the store.\<close>

definition bp_forward :: "Network \<Rightarrow> nat \<Rightarrow> dense list \<times> dense list \<times> heap
                          \<Rightarrow> error + (dense list \<times> dense list \<times> heap)" where
  "bp_forward n i = (\<lambda>(activations, zs, h).
     andThen (index (Weights n) i) (\<lambda>wi.
     andThen (Mul (activations ! (i + 1)) (M (activations ! i)) (M wi) h) (\<lambda>(a, h).
     andThen (index (Biases n) i) (\<lambda>bi.
     andThen (Add a (M a) (M bi) h) (\<lambda>(a, h).
     andThen (Clone (M a) h) (\<lambda>(z, h).
     andThen (Apply sigmoidMatrix a (M a) h) (\<lambda>(a, h).
     Inr (activations[i + 1 := a], zs[i := z], h))))))))"

text \<open>The loop that clones the weights and biases into \<^verbatim>\<open>nablaW\<close> and \<^verbatim>\<open>nablaB\<close>.\<close>

definition bp_clone :: "Network \<Rightarrow> nat \<Rightarrow> dense list \<times> dense list \<times> heap
                        \<Rightarrow> error + (dense list \<times> dense list \<times> heap)" where
  "bp_clone n i = (\<lambda>(nablaB, nablaW, h).
     andThen (index (Weights n) i) (\<lambda>wi.
     andThen (Clone (M wi) h) (\<lambda>(w, h).
     andThen (index (Biases n) i) (\<lambda>bi.
     andThen (Clone (M bi) h) (\<lambda>(b, h).
     Inr (nablaB[i := b], nablaW[i := w], h))))))"

text \<open>
  The backward loop: state \<^verbatim>\<open>delta\<close>, \<^verbatim>\<open>nablaB\<close>, \<^verbatim>\<open>nablaW\<close> and the store.
  \<^verbatim>\<open>nablaB[i] = delta\<close> copies the header of \<^verbatim>\<open>delta\<close>, not its cells.
\<close>

definition bp_backward :: "Network \<Rightarrow> dense list \<Rightarrow> dense list \<Rightarrow> nat
     \<Rightarrow> dense \<times> dense list \<times> dense list \<times> heap
     \<Rightarrow> error + (dense \<times> dense list \<times> dense list \<times> heap)" where
  "bp_backward n activations zs i = (\<lambda>(delta, nablaB, nablaW, h).
     andThen (Apply sigmoidPrimeMatrix zeroDense (M (zs ! i)) h) (\<lambda>(sp, h).
     andThen (index (Weights n) (i + 1)) (\<lambda>wi.
     andThen (Mul zeroDense (M delta) (T wi) h) (\<lambda>(tmp, h).
     andThen (MulElem (Reset delta) (M tmp) (M sp) h) (\<lambda>(delta, h).
     andThen (Mul (nablaW ! i) (T (activations ! i)) (M delta) h) (\<lambda>(w, h).
     Inr (delta, nablaB[i := delta], nablaW[i := w], h)))))))"

text \<open>
  The output layer: the error of the cost function, \<^verbatim>\<open>delta\<close>, and the
  gradients of the last layer.  \<^verbatim>\<open>zs[size-1]\<close> is out of range when
  \<^verbatim>\<open>size\<close> is 0.
\<close>

definition bp_output :: "dense list \<Rightarrow> nat \<Rightarrow> dense list \<Rightarrow> dense list
     \<Rightarrow> dense list \<times> dense list \<times> heap
     \<Rightarrow> error + (dense \<times> dense list \<times> dense list \<times> heap)" where
  "bp_output data sz activations zs = (\<lambda>(nablaB, nablaW, h).
     andThen (quadraticCost (activations ! sz) (data ! 1) h) (\<lambda>(err, h).
     if sz = 0 then Inl (Panic ''index out of range'') else
     andThen (Apply sigmoidPrimeMatrix zeroDense (M (zs ! (sz - 1))) h) (\<lambda>(tmp, h).
     andThen (MulElem zeroDense (M err) (M tmp) h) (\<lambda>(delta, h).
     andThen (Clone (M delta) h) (\<lambda>(b, h).
     andThen (Mul (nablaW ! (sz - 1)) (T (activations ! (sz - 1))) (M delta) h) (\<lambda>(w, h).
     Inr (delta, nablaB[sz - 1 := b], nablaW[sz - 1 := w], h)))))))"

text \<open>
  \<^verbatim>\<open>make([]mat64.Dense, size+1)\<close> panics when \<^verbatim>\<open>NumLayers\<close> is negative,
  \<^verbatim>\<open>make([]mat64.Dense, size)\<close> when it is 0.  The argument \<^verbatim>\<open>eta\<close> is
  not used.
\<close>

definition backpropQuadCost :: "Network \<Rightarrow> dense list \<Rightarrow> real \<Rightarrow> heap
     \<Rightarrow> error + ((dense list \<times> dense list) \<times> heap)" where
  "backpropQuadCost n data eta h =
     (if length data \<noteq> 2 then Inl (Fatal ''Input and output data set mismatch'')
      else if NumLayers n - 1 < 0 then Inl (Panic ''makeslice: len out of range'')
      else let sz = nat (NumLayers n - 1) in
        andThen (Clone (M (data ! 0)) h) (\<lambda>(a0, h).
        andThen (forM [0..<sz] (bp_forward n)
                   ((replicate (sz + 1) zeroDense)[0 := a0], replicate sz zeroDense, h))
          (\<lambda>(activations, zs, h).
        andThen (forM [0..<sz] (bp_clone n)
                   (replicate sz zeroDense, replicate sz zeroDense, h))
          (\<lambda>(nablaB, nablaW, h).
        andThen (bp_output data sz activations zs (nablaB, nablaW, h))
          (\<lambda>(delta, nablaB, nablaW, h).
        andThen (forM (rev [0..<sz - 1]) (bp_backward n activations zs)
                   (delta, nablaB, nablaW, h))
          (\<lambda>(delta, nablaB, nablaW, h).
        Inr ((nablaB, nablaW), h)))))))"

subsection \<open>SGD\<close>

text \<open>\<^verbatim>\<open>int(x)\<close> of a \<^verbatim>\<open>float64\<close> truncates towards zero.\<close>

definition trunc :: "real \<Rightarrow> int" where
  "trunc x = (if 0 \<le> x then \<lfloor>x\<rfloor> else \<lceil>x\<rceil>)"

definition sgd_alloc :: "Network \<Rightarrow> nat \<Rightarrow> dense list \<times> dense list \<times> heap
                         \<Rightarrow> error + (dense list \<times> dense list \<times> heap)" where
  "sgd_alloc n i = (\<lambda>(nablaB, nablaW, h).
     andThen (At (Sizes n) 0 i h) (\<lambda>x.
     andThen (At (Sizes n) 0 (i + 1) h) (\<lambda>y.
     andThen (NewDense (trunc x) (trunc y) h) (\<lambda>(w, h).
     andThen (NewDense 1 (trunc y) h) (\<lambda>(b, h).
     Inr (nablaB[i := b], nablaW[i := w], h))))))"

definition sgd_add :: "dense list \<Rightarrow> dense list \<Rightarrow> nat \<Rightarrow> dense list \<times> dense list \<times> heap
                       \<Rightarrow> error + (dense list \<times> dense list \<times> heap)" where
  "sgd_add tmpNablaB tmpNablaW k = (\<lambda>(nablaB, nablaW, h).
     andThen (Add (nablaB ! k) (M (nablaB ! k)) (M (tmpNablaB ! k)) h) (\<lambda>(b, h).
     andThen (Add (nablaW ! k) (M (nablaW ! k)) (M (tmpNablaW ! k)) h) (\<lambda>(w, h).
     Inr (nablaB[k := b], nablaW[k := w], h))))"

text \<open>The example of step \<open>j\<close> of iteration \<open>i\<close> is \<^verbatim>\<open>data[i+j]\<close>.\<close>

definition sgd_example :: "Network \<Rightarrow> dense list list \<Rightarrow> real \<Rightarrow> nat \<Rightarrow> nat \<Rightarrow> nat
     \<Rightarrow> dense list \<times> dense list \<times> heap \<Rightarrow> error + (dense list \<times> dense list \<times> heap)" where
  "sgd_example n data eta sz i j = (\<lambda>(nablaB, nablaW, h).
     andThen (index data (i + j)) (\<lambda>ex.
     andThen (backpropQuadCost n ex eta h) (\<lambda>((tmpNablaB, tmpNablaW), h).
     forM [0..<sz] (sgd_add tmpNablaB tmpNablaW) (nablaB, nablaW, h))))"

text \<open>
  \<^verbatim>\<open>p.Set(j, k, p.At(j, k) - g.At(j, k)*eta/float64(batchSize))\<close> for one cell,
  and the two loops around it.
\<close>

definition sgd_cell :: "dense \<Rightarrow> dense \<Rightarrow> real \<Rightarrow> int \<Rightarrow> nat \<Rightarrow> nat \<Rightarrow> heap \<Rightarrow> error + heap" where
  "sgd_cell p g eta batchSize j k h =
     andThen (At p j k h) (\<lambda>pv.
     andThen (At g j k h) (\<lambda>gv.
     Set p j k (pv - gv * eta / of_int batchSize) h))"

definition sgd_descend :: "dense \<Rightarrow> dense \<Rightarrow> real \<Rightarrow> int \<Rightarrow> heap \<Rightarrow> error + heap" where
  "sgd_descend p g eta batchSize h =
     (let (x, y) = Caps g in
      forM [0..<x] (\<lambda>j. forM [0..<y] (sgd_cell p g eta batchSize j)) h)"

definition sgd_update :: "Network \<Rightarrow> dense list \<Rightarrow> dense list \<Rightarrow> real \<Rightarrow> int \<Rightarrow> nat \<Rightarrow> heap
                          \<Rightarrow> error + heap" where
  "sgd_update n nablaB nablaW eta batchSize i h =
     andThen (index (Biases n) i) (\<lambda>bi.
     andThen (sgd_descend bi (nablaB ! i) eta batchSize h) (\<lambda>h.
     andThen (index (Weights n) i) (\<lambda>wi.
     sgd_descend wi (nablaW ! i) eta batchSize h)))"

text \<open>
  One iteration of the outer loop.  Its state is \<^verbatim>\<open>batchSize\<close>, which the last
  iteration may lower, and the store.
\<close>

definition sgd_batch :: "Network \<Rightarrow> dense list list \<Rightarrow> real \<Rightarrow> nat \<Rightarrow> nat \<Rightarrow> int \<times> heap
                         \<Rightarrow> error + (int \<times> heap)" where
  "sgd_batch n data eta sz i = (\<lambda>(batchSize, h).
     andThen (forM [0..<sz] (sgd_alloc n)
                (replicate sz zeroDense, replicate sz zeroDense, h)) (\<lambda>(nablaB, nablaW, h).
     let batchSize = (if int (length data) - int i * batchSize < batchSize
                      then int (length data) - int i * batchSize else batchSize) in
     andThen (forM [0..<nat batchSize] (sgd_example n data eta sz i) (nablaB, nablaW, h))
       (\<lambda>(nablaB, nablaW, h).
     andThen (forM [0..<sz] (sgd_update n nablaB nablaW eta batchSize) h) (\<lambda>h.
     Inr (batchSize, h)))))"

text \<open>The test phase counts the accepted outputs; the pair is what the program prints.\<close>

definition sgd_test :: "Network \<Rightarrow> (mx \<Rightarrow> mx \<Rightarrow> bool) \<Rightarrow> dense list list \<Rightarrow> nat \<Rightarrow> nat \<times> heap
                        \<Rightarrow> error + (nat \<times> heap)" where
  "sgd_test n accept test i = (\<lambda>(correct, h).
     andThen (index test i) (\<lambda>t.
     andThen (index t 0) (\<lambda>t0.
     andThen (FeedForward n t0 h) (\<lambda>(op, h).
     andThen (index t 1) (\<lambda>t1.
     Inr (if accept (val h op) (val h t1) then correct + 1 else correct, h))))))"

definition SGD :: "Network \<Rightarrow> dense list list \<Rightarrow> real \<Rightarrow> int \<Rightarrow> dense list list option \<Rightarrow> heap
                   \<Rightarrow> error + ((nat \<times> nat) option \<times> heap)" where
  "SGD n data eta batchSize test h =
     (if NumLayers n < 2 then Inl (Fatal ''Network not set up'')
      else if batchSize = 0 then Inl (Panic ''integer divide by zero'')
      else
        let iterations = int (length data) sdiv batchSize
                         + (if int (length data) smod batchSize > 0 then 1 else 0);
            sz = nat (NumLayers n - 1) in
        andThen (forM [0..<nat iterations] (sgd_batch n data eta sz) (batchSize, h))
          (\<lambda>(batchSize, h).
        case (test, TestFunc n) of
          (Some ts, Some accept) \<Rightarrow>
            andThen (forM [0..<length ts] (sgd_test n accept ts) (0, h)) (\<lambda>(correct, h).
            Inr (Some (correct, length ts), h))
        | _ \<Rightarrow> Inr (None, h)))"

section \<open>Specification-level notions\<close>

definition okd :: "heap \<Rightarrow> dense \<Rightarrow> bool" where
  "okd h m \<longleftrightarrow> Stride m = Cols m \<and> capRows m = Rows m \<and> capCols m = Cols m \<and>
     (case Data m of NilSlice \<Rightarrow> Rows m * Cols m = 0
      | Slice a l \<Rightarrow> a < length h \<and> l = Rows m * Cols m \<and> l \<le> length (h ! a))"

fun saddr :: "slice \<Rightarrow> nat set" where
  "saddr NilSlice = {}"
| "saddr (Slice a l) = {a}"

definition addr :: "dense \<Rightarrow> nat set" where
  "addr m = saddr (Data m)"

definition mods :: "nat set \<Rightarrow> heap \<Rightarrow> heap \<Rightarrow> bool" where
  "mods S h h' \<longleftrightarrow> length h \<le> length h' \<and>
     (\<forall>a<length h. length (h' ! a) = length (h ! a) \<and> (a \<notin> S \<longrightarrow> h' ! a = h ! a))"

definition loc :: "nat \<Rightarrow> dense \<Rightarrow> bool" where
  "loc n m \<longleftrightarrow> (\<forall>a\<in>addr m. n \<le> a)"

definition wrote :: "heap \<Rightarrow> dense \<Rightarrow> heap \<Rightarrow> dense \<Rightarrow> mx \<Rightarrow> bool" where
  "wrote h m h' m' V \<longleftrightarrow> okd h' m' \<and> val h' m' = V \<and> mods (addr m') h h'
     \<and> addr m' \<subseteq> addr m \<union> {length h}"

fun act_at :: "(mx \<times> mx) list \<Rightarrow> mx \<Rightarrow> nat \<Rightarrow> mx" where
  "act_at ps x 0 = x"
| "act_at ps x (Suc i) =
     mapply sigmoidMatrix (madd (mmul (act_at ps x i) (fst (ps ! i))) (snd (ps ! i)))"

definition z_at :: "(mx \<times> mx) list \<Rightarrow> mx \<Rightarrow> nat \<Rightarrow> mx" where
  "z_at ps x i = madd (mmul (act_at ps x i) (fst (ps ! i))) (snd (ps ! i))"

definition params :: "heap \<Rightarrow> Network \<Rightarrow> (mx \<times> mx) list" where
  "params h n = zip (map (val h) (Weights n)) (map (val h) (Biases n))"

definition wf_net :: "heap \<Rightarrow> Network \<Rightarrow> nat list \<Rightarrow> bool" where
  "wf_net h n szs \<longleftrightarrow>
     2 \<le> length szs \<and> NumLayers n = int (length szs) \<and>
     length (Weights n) = length szs - 1 \<and> length (Biases n) = length szs - 1 \<and>
     (\<forall>i<length szs - 1.
        okd h (Weights n ! i) \<and> Rows (Weights n ! i) = szs ! i
        \<and> Cols (Weights n ! i) = szs ! (i + 1)
        \<and> okd h (Biases n ! i) \<and> Rows (Biases n ! i) = 1
        \<and> Cols (Biases n ! i) = szs ! (i + 1))"

definition locals :: "nat \<Rightarrow> heap \<Rightarrow> dense list \<Rightarrow> bool" where
  "locals n h ms \<longleftrightarrow> (\<forall>m\<in>set ms. okd h m \<and> loc n m)"

definition wf_grads :: "heap \<Rightarrow> nat list \<Rightarrow> dense list \<Rightarrow> dense list \<Rightarrow> bool" where
  "wf_grads h szs nB nW \<longleftrightarrow>
     length nB = length szs - 1 \<and> length nW = length szs - 1 \<and>
     (\<forall>i<length szs - 1.
        okd h (nB ! i) \<and> Rows (nB ! i) = 1 \<and> Cols (nB ! i) = szs ! (i + 1)
        \<and> okd h (nW ! i) \<and> Rows (nW ! i) = szs ! i \<and> Cols (nW ! i) = szs ! (i + 1))"

definition h3 :: heap where
  "h3 = [[1, 2, 1], [1, 1], [0, 0], [1, 1], [0], [0], [0]]"

definition net3 :: Network where
  "net3 = \<lparr>NumLayers = 3, Sizes = hdr 1 3 (Slice 0 3),
            Weights = [hdr 1 2 (Slice 1 2), hdr 2 1 (Slice 3 2)],
            Biases = [hdr 1 2 (Slice 2 2), hdr 1 1 (Slice 4 1)], TestFunc = None\<rparr>"

definition ex3 :: "dense list" where
  "ex3 = [hdr 1 1 (Slice 5 1), hdr 1 1 (Slice 6 1)]"

definition grad_vals :: "Network \<Rightarrow> dense list \<Rightarrow> real \<Rightarrow> heap \<Rightarrow> (mx list \<times> mx list) option" where
  "grad_vals n data eta h =
     (case backpropQuadCost n data eta h of
        Inl e \<Rightarrow> None
      | Inr ((nablaB, nablaW), h') \<Rightarrow> Some (map (val h') nablaB, map (val h') nablaW))"

definition fatal_only :: "(string \<Rightarrow> bool) \<Rightarrow> error + 'a \<Rightarrow> bool" where
  "fatal_only P r \<longleftrightarrow> (\<forall>msg. r = Inl (Fatal msg) \<longrightarrow> P msg)"

definition h4 :: heap where
  "h4 = [[1, 1, 1, 1], [2], [0], [2], [- 1], [2], [- 1], [0], [0]]"

definition net4 :: Network where
  "net4 = \<lparr>NumLayers = 4, Sizes = hdr 1 4 (Slice 0 4),
            Weights = [hdr 1 1 (Slice 1 1), hdr 1 1 (Slice 3 1), hdr 1 1 (Slice 5 1)],
            Biases = [hdr 1 1 (Slice 2 1), hdr 1 1 (Slice 4 1), hdr 1 1 (Slice 6 1)],
            TestFunc = None\<rparr>"

definition ex4 :: "dense list" where
  "ex4 = [hdr 1 1 (Slice 7 1), hdr 1 1 (Slice 8 1)]"

fun delta_back :: "(mx \<times> mx) list \<Rightarrow> mx \<Rightarrow> mx \<Rightarrow> nat \<Rightarrow> nat \<Rightarrow> mx" where
  "delta_back ps x y l 0 =
     mhad (msub (act_at ps x (Suc l)) y) (mapply sigmoidPrimeMatrix (z_at ps x l))"
| "delta_back ps x y l (Suc k) =
     mhad (mmul (delta_back ps x y l k) (mtrans (fst (ps ! (l - k)))))
          (mapply sigmoidPrimeMatrix (z_at ps x (l - Suc k)))"

definition row1 :: "real \<Rightarrow> mx" where
  "row1 v = \<lparr>nr = 1, nc = 1, el = [v]\<rparr>"

definition wf_sizes :: "heap \<Rightarrow> Network \<Rightarrow> nat list \<Rightarrow> bool" where
  "wf_sizes h n szs \<longleftrightarrow> okd h (Sizes n) \<and> Rows (Sizes n) = 1 \<and> Cols (Sizes n) = length szs
     \<and> el (val h (Sizes n)) = map real szs"

definition params_apart :: "Network \<Rightarrow> bool" where
  "params_apart n \<longleftrightarrow>
     (\<forall>i<length (Weights n). \<forall>j<length (Biases n).
        addr (Weights n ! i) \<inter> addr (Biases n ! j) = {}) \<and>
     (\<forall>i<length (Weights n). \<forall>j<length (Weights n).
        i \<noteq> j \<longrightarrow> addr (Weights n ! i) \<inter> addr (Weights n ! j) = {}) \<and>
     (\<forall>i<length (Biases n). \<forall>j<length (Biases n).
        i \<noteq> j \<longrightarrow> addr (Biases n ! i) \<inter> addr (Biases n ! j) = {})"

definition descended :: "real \<Rightarrow> int \<Rightarrow> real list \<Rightarrow> real list \<Rightarrow> nat \<Rightarrow> real list" where
  "descended eta bs ps gs t =
     map (\<lambda>u. if u < t then ps ! u - gs ! u * eta / of_int bs else ps ! u) [0..<length ps]"

definition accs :: "heap \<Rightarrow> nat \<Rightarrow> nat list \<Rightarrow> dense list \<Rightarrow> dense list \<Rightarrow> bool" where
  "accs h base szs nB nW \<longleftrightarrow> wf_grads h szs nB nW \<and>
     (\<forall>i<length szs - 1. addr (nW ! i) = {base + 2 * i} \<and> addr (nB ! i) = {base + 2 * i + 1})"

type_synonym run = "heap \<times> ((dense list \<times> dense list) \<times> heap)"

definition example_runs :: "Network \<Rightarrow> dense list list \<Rightarrow> real \<Rightarrow> heap \<Rightarrow> run list \<Rightarrow> bool" where
  "example_runs n es eta h runs \<longleftrightarrow> length runs = length es \<and>
     (\<forall>j<length es. prefix h (fst (runs ! j))
        \<and> backpropQuadCost n (es ! j) eta (fst (runs ! j)) = Inr (snd (runs ! j)))"

definition gradB :: "nat \<Rightarrow> run \<Rightarrow> mx" where
  "gradB k r = val (snd (snd r)) (fst (fst (snd r)) ! k)"

definition gradW :: "nat \<Rightarrow> run \<Rightarrow> mx" where
  "gradW k r = val (snd (snd r)) (snd (fst (snd r)) ! k)"

definition msum :: "nat \<Rightarrow> nat \<Rightarrow> mx list \<Rightarrow> mx" where
  "msum r c Gs = foldl madd (mzero r c) Gs"

definition paddr :: "Network \<Rightarrow> nat set" where
  "paddr n = (\<Union>m\<in>set (Weights n) \<union> set (Biases n). addr m)"

definition out_delta :: "(mx \<times> mx) list \<Rightarrow> mx \<Rightarrow> mx \<Rightarrow> nat \<Rightarrow> mx" where
  "out_delta ps x y L =
     mhad (msub (act_at ps x (L - 1)) y) (mapply sigmoidPrimeMatrix (z_at ps x (L - 2)))"

definition out_gradW :: "(mx \<times> mx) list \<Rightarrow> mx \<Rightarrow> mx \<Rightarrow> nat \<Rightarrow> mx" where
  "out_gradW ps x y L = mmul (mtrans (act_at ps x (L - 2))) (out_delta ps x y L)"

text \<open>
  The batch and the update as the specification words them.  Batch \<open>i\<close> of a training
  set, for batch size \<open>B\<close>, is the slice of the examples \<open>i * B\<close> to \<open>i * B + B - 1\<close>,
  shorter at the end of the set.  The accumulator of a parameter is the sum, from the
  zero matrix of the shape of the parameter, of the gradients that backpropagation
  returns for the examples of the batch, and the parameter becomes itself minus
  \<open>eta / actualBatchSize\<close> times its accumulator, where \<open>actualBatchSize\<close> is the number
  of examples of the batch.
\<close>

definition spec_batch :: "dense list list \<Rightarrow> nat \<Rightarrow> nat \<Rightarrow> dense list list" where
  "spec_batch data B i = take B (drop (i * B) data)"

definition spec_nablaW :: "Network \<Rightarrow> dense list list \<Rightarrow> real \<Rightarrow> heap \<Rightarrow> nat \<Rightarrow> mx" where
  "spec_nablaW n es eta h k =
     msum (Rows (Weights n ! k)) (Cols (Weights n ! k))
       (map (\<lambda>e. snd (the (grad_vals n e eta h)) ! k) es)"

definition spec_nablaB :: "Network \<Rightarrow> dense list list \<Rightarrow> real \<Rightarrow> heap \<Rightarrow> nat \<Rightarrow> mx" where
  "spec_nablaB n es eta h k =
     msum (Rows (Biases n ! k)) (Cols (Biases n ! k))
       (map (\<lambda>e. fst (the (grad_vals n e eta h)) ! k) es)"

definition spec_W :: "Network \<Rightarrow> dense list list \<Rightarrow> real \<Rightarrow> heap \<Rightarrow> nat \<Rightarrow> mx" where
  "spec_W n es eta h k =
     msub (val h (Weights n ! k)) (mscale (eta / real (length es)) (spec_nablaW n es eta h k))"

definition spec_B :: "Network \<Rightarrow> dense list list \<Rightarrow> real \<Rightarrow> heap \<Rightarrow> nat \<Rightarrow> mx" where
  "spec_B n es eta h k =
     msub (val h (Biases n ! k)) (mscale (eta / real (length es)) (spec_nablaB n es eta h k))"

text \<open>
  A two-layer network of sizes 1 and 1 with \<open>W = [0]\<close> and \<open>B = [0]\<close>, and four examples
  (input, desired output): (1, 1), (1, 0), (2, 1/2), (2, 1).
\<close>

definition store2 :: heap where
  "store2 = [[1, 1], [0], [0], [1], [1], [1], [0], [2], [1 / 2], [2], [1]]"

definition net2 :: Network where
  "net2 = \<lparr>NumLayers = 2, Sizes = hdr 1 2 (Slice 0 2),
            Weights = [hdr 1 1 (Slice 1 1)], Biases = [hdr 1 1 (Slice 2 1)], TestFunc = None\<rparr>"

definition data2 :: "dense list list" where
  "data2 = [[hdr 1 1 (Slice 3 1), hdr 1 1 (Slice 4 1)],
            [hdr 1 1 (Slice 5 1), hdr 1 1 (Slice 6 1)],
            [hdr 1 1 (Slice 7 1), hdr 1 1 (Slice 8 1)],
            [hdr 1 1 (Slice 9 1), hdr 1 1 (Slice 10 1)]]"

section \<open>Properties\<close>

lemma andThen_Inr [simp]: "andThen (Inr x) f = f x"
  by (simp add: andThen_def)

lemma andThen_Inl [simp]: "andThen (Inl e) f = Inl e"
  by (simp add: andThen_def)

lemma andThen_eq_Inr: "andThen m f = Inr y \<longleftrightarrow> (\<exists>x. m = Inr x \<and> f x = Inr y)"
  by (cases m) simp_all

lemma index_eq_Inr: "index xs i = Inr x \<longleftrightarrow> i < length xs \<and> x = xs ! i"
  by (auto simp: index_def)

lemma index_in [simp]: "i < length xs \<Longrightarrow> index xs i = Inr (xs ! i)"
  by (simp add: index_def)

subsection \<open>Matrix values\<close>

lemma mk_sel [simp]: "nr (mk r c f) = r" "nc (mk r c f) = c" "length (el (mk r c f)) = r * c"
  by (simp_all add: mk_def)

lemma dims_ops [simp]:
  "nr (mtrans A) = nc A" "nc (mtrans A) = nr A"
  "nr (mmul A B) = nr A" "nc (mmul A B) = nc B"
  "nr (madd A B) = nr A" "nc (madd A B) = nc A"
  "nr (msub A B) = nr A" "nc (msub A B) = nc A"
  "nr (mhad A B) = nr A" "nc (mhad A B) = nc A"
  "nr (mapply fn A) = nr A" "nc (mapply fn A) = nc A"
  by (simp_all add: mtrans_def mmul_def madd_def msub_def mhad_def mapply_def)

lemma length_ops [simp]:
  "length (el (mtrans A)) = nc A * nr A"
  "length (el (mmul A B)) = nr A * nc B"
  "length (el (madd A B)) = nr A * nc A"
  "length (el (msub A B)) = nr A * nc A"
  "length (el (mhad A B)) = nr A * nc A"
  "length (el (mapply fn A)) = nr A * nc A"
  by (simp_all add: mtrans_def mmul_def madd_def msub_def mhad_def mapply_def)

lemma mx_eqI: "nr A = nr B \<Longrightarrow> nc A = nc B \<Longrightarrow> el A = el B \<Longrightarrow> A = (B::mx)"
  by simp

lemma entry_mk: "i < r \<Longrightarrow> j < c \<Longrightarrow> entry (mk r c f) i j = f i j"
proof -
  assume i: "i < r" and j: "j < c"
  have "i * c + j < r * c"
  proof -
    have "i * c + j < i * c + c" using j by simp
    also have "\<dots> = Suc i * c" by simp
    also have "\<dots> \<le> r * c" using i by (intro mult_le_mono1) simp
    finally show ?thesis .
  qed
  then show ?thesis using j by (simp add: entry_def mk_def)
qed

lemma mk_cong: "(\<And>i j. i < r \<Longrightarrow> j < c \<Longrightarrow> f i j = g i j) \<Longrightarrow> mk r c f = mk r c g"
proof -
  assume fg: "\<And>i j. i < r \<Longrightarrow> j < c \<Longrightarrow> f i j = g i j"
  have "f (k div c) (k mod c) = g (k div c) (k mod c)" if "k < r * c" for k
  proof -
    have c: "0 < c" using that by (cases c) simp_all
    have "k div c < r" using that c by (simp add: less_mult_imp_div_less)
    moreover have "k mod c < c" using c by simp
    ultimately show ?thesis by (rule fg)
  qed
  then show ?thesis by (simp add: mk_def)
qed

lemma nr_val [simp]: "nr (val h m) = Rows m" and nc_val [simp]: "nc (val h m) = Cols m"
  by (simp_all add: val_def)

lemma length_el_val [simp]: "length (el (val h m)) = Rows m * Cols m"
  by (simp add: val_def)

lemma length_el_mval [simp]: "length (el (mval h a)) = nr (mval h a) * nc (mval h a)"
  by (cases a) (simp_all add: mult.commute)

subsection \<open>Valid headers\<close>

lemma okd_zeroDense [simp]: "okd h zeroDense"
  by (simp add: okd_def zeroDense_def)

lemma addr_zeroDense [simp]: "addr zeroDense = {}"
  by (simp add: addr_def zeroDense_def)

lemma hdr_sel [simp]:
  "Rows (hdr r c d) = r" "Cols (hdr r c d) = c" "Stride (hdr r c d) = c"
  "Data (hdr r c d) = d" "capRows (hdr r c d) = r" "capCols (hdr r c d) = c"
  by (simp_all add: hdr_def)

lemma okd_hdr: "okd h m \<Longrightarrow> m = hdr (Rows m) (Cols m) (Data m)"
  by (simp add: okd_def hdr_def)

lemma length_cells: "okd h m \<Longrightarrow> length (cells h (Data m)) = Rows m * Cols m"
  by (auto simp: okd_def split: slice.splits)

lemma val_okd: "okd h m \<Longrightarrow> val h m = \<lparr>nr = Rows m, nc = Cols m, el = cells h (Data m)\<rparr>"
proof -
  assume ok: "okd h m"
  let ?cs = "cells h (Data m)"
  have len: "length ?cs = Rows m * Cols m" using ok by (rule length_cells)
  have st: "Stride m = Cols m" using ok by (simp add: okd_def)
  have "map (\<lambda>k. ?cs ! (k div Cols m * Cols m + k mod Cols m)) [0..<Rows m * Cols m]
        = map (\<lambda>k. ?cs ! k) [0..<length ?cs]"
    by (simp add: len)
  also have "\<dots> = ?cs" by (rule map_nth)
  finally show ?thesis by (simp add: val_def mk_def raw_def st)
qed

lemma el_val_okd: "okd h m \<Longrightarrow> el (val h m) = cells h (Data m)"
  by (simp add: val_okd)

subsection \<open>Stores that differ on a set of arrays\<close>

lemma mods_refl [simp]: "mods S h h"
  by (simp add: mods_def)

lemma mods_trans: "mods S h h' \<Longrightarrow> mods S' h' h'' \<Longrightarrow> mods (S \<union> S') h h''"
  by (auto simp: mods_def)

lemma mods_mono: "mods S h h' \<Longrightarrow> S \<subseteq> S' \<Longrightarrow> mods S' h h'"
  by (auto simp: mods_def)

lemma mods_local: "mods S h h' \<Longrightarrow> \<forall>a\<in>S. n \<le> a \<Longrightarrow> n \<le> length h \<Longrightarrow> mods (S \<inter> {a. n \<le> a}) h h'"
  by (auto simp: mods_def)

lemma mods_append [simp]: "mods S h (h @ hs)"
  by (simp add: mods_def nth_append)

lemma mods_length: "mods S h h' \<Longrightarrow> length h \<le> length h'"
  by (simp add: mods_def)

lemma mods_empty_prefix: "mods {} h h' \<longleftrightarrow> prefix h h'"
proof
  assume m: "mods {} h h'"
  then have "take (length h) h' = h"
    by (intro nth_equalityI) (auto simp: mods_def)
  then show "prefix h h'" by (metis take_is_prefix)
next
  assume "prefix h h'"
  then obtain zs where "h' = h @ zs" by (auto simp: prefix_def)
  then show "mods {} h h'" by simp
qed

lemma okd_mods: "okd h m \<Longrightarrow> mods S h h' \<Longrightarrow> okd h' m"
  by (auto simp: okd_def mods_def split: slice.splits)

lemma cells_mods:
  assumes "okd h m" and "mods S h h'" and "addr m \<inter> S = {}"
  shows "cells h' (Data m) = cells h (Data m)"
proof (cases "Data m")
  case NilSlice
  then show ?thesis by simp
next
  case (Slice a l)
  with assms have "a < length h" "a \<notin> S" by (auto simp: okd_def addr_def)
  with assms(2) have "h' ! a = h ! a" by (simp add: mods_def)
  with Slice show ?thesis by simp
qed

lemma val_mods:
  assumes "okd h m" and "mods S h h'" and "addr m \<inter> S = {}"
  shows "val h' m = val h m"
proof -
  have "okd h' m" using assms(1,2) by (rule okd_mods)
  then show ?thesis using assms by (simp add: val_okd cells_mods[OF assms])
qed

lemma addr_lt: "okd h m \<Longrightarrow> a \<in> addr m \<Longrightarrow> a < length h"
  by (auto simp: okd_def addr_def split: slice.splits)

subsection \<open>Writing into a receiver\<close>

lemma store_mods: "okd h m \<Longrightarrow> length xs = Rows m * Cols m \<Longrightarrow> mods (addr m) h (store h m xs)"
  by (auto simp: okd_def store_def mods_def addr_def nth_list_update split: slice.splits)

lemma val_store: "okd h m \<Longrightarrow> length xs = Rows m * Cols m \<Longrightarrow>
  val (store h m xs) m = \<lparr>nr = Rows m, nc = Cols m, el = xs\<rparr>"
proof -
  assume ok: "okd h m" and len: "length xs = Rows m * Cols m"
  have ok': "okd (store h m xs) m" using ok store_mods[OF ok len] by (rule okd_mods)
  have "cells (store h m xs) (Data m) = xs"
    using ok len by (auto simp: okd_def store_def split: slice.splits)
  then show ?thesis by (simp add: val_okd[OF ok'])
qed

lemma okd_Reset: "okd h m \<Longrightarrow> okd h (Reset m)"
  by (auto simp: okd_def Reset_def split: slice.splits)

lemma addr_Reset [simp]: "addr (Reset m) = addr m"
  by (cases "Data m") (simp_all add: addr_def Reset_def)

lemma Reset_sel [simp]: "Cols (Reset m) = 0" "Rows (Reset m) = 0"
  by (simp_all add: Reset_def)

lemma reuseAs_okd:
  assumes "okd h m" and "reuseAs m r c h = Inr (m', h')"
  shows "okd h' m' \<and> Rows m' = r \<and> Cols m' = c \<and> mods {} h h'
         \<and> addr m' \<subseteq> addr m \<union> {length h}"
  using assms
  by (cases "Data m")
     (auto simp: reuseAs_def okd_def isZero_def use_def hdr_def addr_def nth_append
           split: if_splits)

lemma reuseAs_total:
  assumes "okd h m" and "Cols m = 0 \<or> (Rows m = r \<and> Cols m = c)"
  shows "\<exists>m' h'. reuseAs m r c h = Inr (m', h')"
  using assms by (auto simp: reuseAs_def okd_def isZero_def use_def Let_def split: prod.splits)

lemma reuseAs_same:
  assumes "okd h m" and "Rows m = r" and "Cols m = c"
  shows "reuseAs m r c h = Inr (m, h)"
  using assms
  by (cases "Data m") (auto simp: reuseAs_def okd_def isZero_def use_def hdr_def)

lemma assign_okd:
  assumes ok: "okd h m" and run: "assign m r c xs h = Inr (m', h')" and len: "length xs = r * c"
  shows "okd h' m'" "Rows m' = r" "Cols m' = c" "val h' m' = \<lparr>nr = r, nc = c, el = xs\<rparr>"
        "mods (addr m') h h'" "addr m' \<subseteq> addr m \<union> {length h}"
proof -
  from run obtain h1 where r1: "reuseAs m r c h = Inr (m', h1)" and h': "h' = store h1 m' xs"
    by (auto simp: assign_def andThen_eq_Inr)
  note p = reuseAs_okd[OF ok r1]
  from p have ok1: "okd h1 m'" and dims: "Rows m' = r" "Cols m' = c" by simp_all
  have len': "length xs = Rows m' * Cols m'" using len dims by simp
  have m1: "mods (addr m') h1 h'" unfolding h' using ok1 len' by (rule store_mods)
  show "okd h' m'" using ok1 m1 by (rule okd_mods)
  show "Rows m' = r" "Cols m' = c" by fact+
  show "val h' m' = \<lparr>nr = r, nc = c, el = xs\<rparr>"
    unfolding h' using val_store[OF ok1 len'] dims by simp
  show "mods (addr m') h h'" using mods_trans[of "{}" h h1 "addr m'" h'] p m1 by simp
  show "addr m' \<subseteq> addr m \<union> {length h}" using p by simp
qed

lemma assign_total:
  assumes "okd h m" and "Cols m = 0 \<or> (Rows m = r \<and> Cols m = c)"
  shows "\<exists>m' h'. assign m r c xs h = Inr (m', h')"
  using reuseAs_total[OF assms] by (auto simp: assign_def)

lemma assign_same:
  assumes "okd h m" and "Rows m = r" and "Cols m = c"
  shows "assign m r c xs h = Inr (m, store h m xs)"
  by (simp add: assign_def reuseAs_same[OF assms])

lemma loc_zeroDense [simp]: "loc n zeroDense"
  by (simp add: loc_def)

lemma zeroDense_sel [simp]: "Rows zeroDense = 0" "Cols zeroDense = 0"
  by (simp_all add: zeroDense_def)

lemma wroteD:
  assumes "wrote h m h' m' V"
  shows "okd h' m'" "val h' m' = V" "Rows m' = nr V" "Cols m' = nc V"
        "mods (addr m') h h'" "addr m' \<subseteq> addr m \<union> {length h}" "length h \<le> length h'"
  using assms by (auto simp: wrote_def dest: mods_length)

lemma wrote_loc: "wrote h m h' m' V \<Longrightarrow> loc n m \<Longrightarrow> n \<le> length h \<Longrightarrow> loc n m'"
  by (auto simp: wrote_def loc_def)

lemma mods_above:
  assumes "mods S h h'" and "\<forall>a\<in>S. length h0 \<le> a" and "mods {} h0 h"
  shows "mods {} h0 h'"
proof -
  have len: "length h0 \<le> length h" "length h \<le> length h'"
    using assms(1,3) by (simp_all add: mods_def)
  have "h' ! a = h0 ! a" if a: "a < length h0" for a
  proof -
    have "a \<notin> S" using assms(2) a by auto
    moreover have "a < length h" using a len by simp
    ultimately have "h' ! a = h ! a" using assms(1) by (simp add: mods_def)
    moreover have "h ! a = h0 ! a" using assms(3) a by (simp add: mods_def)
    ultimately show ?thesis by simp
  qed
  then show ?thesis using len by (simp add: mods_def)
qed

lemma wrote_prefix:
  assumes "wrote h m h' m' V" and "loc (length h0) m" and "mods {} h0 h"
  shows "mods {} h0 h'"
proof -
  have "loc (length h0) m'" using assms(1,2) mods_length[OF assms(3)] by (rule wrote_loc)
  then have "\<forall>a\<in>addr m'. length h0 \<le> a" by (simp add: loc_def)
  with wroteD(5)[OF assms(1)] show ?thesis using assms(3) by (rule mods_above)
qed

lemma wrote_other:
  assumes "wrote h m h' m' V" and "okd h d" and "addr d \<inter> addr m = {}"
  shows "okd h' d" "val h' d = val h d"
proof -
  note w = wroteD[OF assms(1)]
  show "okd h' d" using assms(2) w(5) by (rule okd_mods)
  have "addr d \<inter> addr m' = {}"
    using w(6) assms(3) addr_lt[OF assms(2)] by auto
  with assms(2) w(5) show "val h' d = val h d" by (rule val_mods)
qed

lemma assign_wrote:
  assumes "okd h m" and "assign m r c xs h = Inr (m', h')" and "length xs = r * c"
  shows "wrote h m h' m' \<lparr>nr = r, nc = c, el = xs\<rparr>"
  using assign_okd[OF assms] by (simp add: wrote_def)

lemma mx_eta: "\<lparr>nr = nr A, nc = nc A, el = el A\<rparr> = (A::mx)"
  by simp

lemma Mul_wrote:
  assumes "okd h m" and "Mul m a b h = Inr (m', h')"
  shows "wrote h m h' m' (mmul (mval h a) (mval h b))"
proof -
  from assms(2) have a: "assign m (nr (mval h a)) (nc (mval h b)) (el (mmul (mval h a) (mval h b))) h = Inr (m', h')"
    by (simp add: Mul_def split: if_splits)
  have "wrote h m h' m' \<lparr>nr = nr (mmul (mval h a) (mval h b)), nc = nc (mmul (mval h a) (mval h b)),
      el = el (mmul (mval h a) (mval h b))\<rparr>"
    using assign_wrote[OF assms(1) a] by simp
  then show ?thesis by (simp only: mx_eta)
qed

lemma Add_wrote:
  assumes "okd h m" and "Add m a b h = Inr (m', h')"
  shows "wrote h m h' m' (madd (mval h a) (mval h b))"
proof -
  from assms(2) have a: "assign m (nr (mval h a)) (nc (mval h a)) (el (madd (mval h a) (mval h b))) h = Inr (m', h')"
    by (simp add: Add_def split: if_splits)
  have "wrote h m h' m' \<lparr>nr = nr (madd (mval h a) (mval h b)), nc = nc (madd (mval h a) (mval h b)),
      el = el (madd (mval h a) (mval h b))\<rparr>"
    using assign_wrote[OF assms(1) a] by simp
  then show ?thesis by (simp only: mx_eta)
qed

lemma Sub_wrote:
  assumes "okd h m" and "Sub m a b h = Inr (m', h')"
  shows "wrote h m h' m' (msub (mval h a) (mval h b))"
proof -
  from assms(2) have a: "assign m (nr (mval h a)) (nc (mval h a)) (el (msub (mval h a) (mval h b))) h = Inr (m', h')"
    by (simp add: Sub_def split: if_splits)
  have "wrote h m h' m' \<lparr>nr = nr (msub (mval h a) (mval h b)), nc = nc (msub (mval h a) (mval h b)),
      el = el (msub (mval h a) (mval h b))\<rparr>"
    using assign_wrote[OF assms(1) a] by simp
  then show ?thesis by (simp only: mx_eta)
qed

lemma MulElem_wrote:
  assumes "okd h m" and "MulElem m a b h = Inr (m', h')"
  shows "wrote h m h' m' (mhad (mval h a) (mval h b))"
proof -
  from assms(2) have a: "assign m (nr (mval h a)) (nc (mval h a)) (el (mhad (mval h a) (mval h b))) h = Inr (m', h')"
    by (simp add: MulElem_def split: if_splits)
  have "wrote h m h' m' \<lparr>nr = nr (mhad (mval h a) (mval h b)), nc = nc (mhad (mval h a) (mval h b)),
      el = el (mhad (mval h a) (mval h b))\<rparr>"
    using assign_wrote[OF assms(1) a] by simp
  then show ?thesis by (simp only: mx_eta)
qed

lemma Apply_wrote:
  assumes "okd h m" and "Apply fn m a h = Inr (m', h')"
  shows "wrote h m h' m' (mapply fn (mval h a))"
proof -
  from assms(2) have a: "assign m (nr (mval h a)) (nc (mval h a)) (el (mapply fn (mval h a))) h = Inr (m', h')"
    by (simp add: Apply_def)
  have "wrote h m h' m' \<lparr>nr = nr (mapply fn (mval h a)), nc = nc (mapply fn (mval h a)),
      el = el (mapply fn (mval h a))\<rparr>"
    using assign_wrote[OF assms(1) a] by simp
  then show ?thesis by (simp only: mx_eta)
qed

lemma Mul_total:
  assumes "okd h m" and "nc (mval h a) = nr (mval h b)"
    and "Cols m = 0 \<or> (Rows m = nr (mval h a) \<and> Cols m = nc (mval h b))"
  shows "\<exists>m' h'. Mul m a b h = Inr (m', h')"
  using assign_total[OF assms(1,3)] assms(2) by (simp add: Mul_def)

lemma Add_total:
  assumes "okd h m" and "nr (mval h a) = nr (mval h b)" and "nc (mval h a) = nc (mval h b)"
    and "Cols m = 0 \<or> (Rows m = nr (mval h a) \<and> Cols m = nc (mval h a))"
  shows "\<exists>m' h'. Add m a b h = Inr (m', h')"
  using assign_total[OF assms(1,4)] assms(2,3) by (simp add: Add_def)

lemma Sub_total:
  assumes "okd h m" and "nr (mval h a) = nr (mval h b)" and "nc (mval h a) = nc (mval h b)"
    and "Cols m = 0 \<or> (Rows m = nr (mval h a) \<and> Cols m = nc (mval h a))"
  shows "\<exists>m' h'. Sub m a b h = Inr (m', h')"
  using assign_total[OF assms(1,4)] assms(2,3) by (simp add: Sub_def)

lemma MulElem_total:
  assumes "okd h m" and "nr (mval h a) = nr (mval h b)" and "nc (mval h a) = nc (mval h b)"
    and "Cols m = 0 \<or> (Rows m = nr (mval h a) \<and> Cols m = nc (mval h a))"
  shows "\<exists>m' h'. MulElem m a b h = Inr (m', h')"
  using assign_total[OF assms(1,4)] assms(2,3) by (simp add: MulElem_def)

lemma Apply_total:
  assumes "okd h m" and "Cols m = 0 \<or> (Rows m = nr (mval h a) \<and> Cols m = nc (mval h a))"
  shows "\<exists>m' h'. Apply fn m a h = Inr (m', h')"
  using assign_total[OF assms(1,2)] by (simp add: Apply_def)

lemma okd_fresh: "length xs = r * c \<Longrightarrow> okd (h @ [xs]) (hdr r c (Slice (length h) (r * c)))"
  by (simp add: okd_def)

lemma val_fresh: "length xs = r * c \<Longrightarrow>
  val (h @ [xs]) (hdr r c (Slice (length h) (r * c))) = \<lparr>nr = r, nc = c, el = xs\<rparr>"
  using val_okd[OF okd_fresh, of xs r c h] by simp

lemma Clone_wrote:
  assumes "Clone a h = Inr (m', h')"
  shows "wrote h zeroDense h' m' (mval h a)" "addr m' = {length h}" "h' = h @ [el (mval h a)]"
proof -
  let ?A = "mval h a"
  from assms have m': "m' = hdr (nr ?A) (nc ?A) (Slice (length h) (nr ?A * nc ?A))"
    and h': "h' = h @ [el ?A]" by (simp_all add: Clone_def Let_def)
  have len: "length (el ?A) = nr ?A * nc ?A" by simp
  show "wrote h zeroDense h' m' ?A"
    unfolding wrote_def m' h' using okd_fresh[OF len, of h] val_fresh[OF len, of h]
    by (simp add: addr_def)
  show "addr m' = {length h}" by (simp add: m' addr_def)
  show "h' = h @ [el ?A]" by fact
qed

lemma Clone_total: "\<exists>m' h'. Clone a h = Inr (m', h')"
  by (simp add: Clone_def Let_def)

lemma el_mzero: "el (mzero r c) = replicate (r * c) 0"
  by (simp add: mzero_def mk_def map_replicate_const)

lemma NewDense_wrote:
  assumes "NewDense r c h = Inr (m', h')"
  shows "wrote h zeroDense h' m' (mzero (nat r) (nat c))" "addr m' = {length h}"
        "h' = h @ [replicate (nat r * nat c) 0]" "0 \<le> r" "0 \<le> c"
proof -
  from assms have rc: "0 \<le> r" "0 \<le> c" by (auto simp: NewDense_def split: if_splits)
  then have n: "nat (r * c) = nat r * nat c" by (simp add: nat_mult_distrib)
  from assms rc have m': "m' = hdr (nat r) (nat c) (Slice (length h) (nat r * nat c))"
    and h': "h' = h @ [replicate (nat r * nat c) 0]" by (simp_all add: NewDense_def n)
  have len: "length (replicate (nat r * nat c) (0::real)) = nat r * nat c" by simp
  have "\<lparr>nr = nat r, nc = nat c, el = replicate (nat r * nat c) 0\<rparr> = mzero (nat r) (nat c)"
    by (simp add: mzero_def mk_def map_replicate_const)
  then show "wrote h zeroDense h' m' (mzero (nat r) (nat c))"
    unfolding wrote_def m' h' using okd_fresh[OF len, of h] val_fresh[OF len, of h]
    by (simp add: addr_def)
  show "addr m' = {length h}" by (simp add: m' addr_def)
  show "h' = h @ [replicate (nat r * nat c) 0]" by fact
  show "0 \<le> r" "0 \<le> c" by fact+
qed

lemma NewDense_total: "0 \<le> r \<Longrightarrow> 0 \<le> c \<Longrightarrow> \<exists>m' h'. NewDense r c h = Inr (m', h')"
  by (simp add: NewDense_def)

subsection \<open>Loops\<close>

lemma forM_append: "forM (xs @ ys) f s = andThen (forM xs f s) (forM ys f)"
proof (induction xs arbitrary: s)
  case Nil
  show ?case by simp
next
  case (Cons x xs)
  show ?case by (cases "f x s") (simp_all add: Cons.IH)
qed

lemma forM_inv:
  assumes "forM is f s = Inr s'" and "P s"
    and "\<And>i s s'. i \<in> set is \<Longrightarrow> P s \<Longrightarrow> f i s = Inr s' \<Longrightarrow> P s'"
  shows "P s'"
  using assms
proof (induction "is" arbitrary: s)
  case Nil
  then show ?case by simp
next
  case (Cons i "is")
  from Cons.prems(1) obtain s1 where s1: "f i s = Inr s1" and rest: "forM is f s1 = Inr s'"
    by (auto simp: andThen_eq_Inr)
  have "P s1" using Cons.prems(3)[OF _ Cons.prems(2) s1] by simp
  with rest show ?case using Cons.prems(3) by (intro Cons.IH[of s1]) auto
qed

lemma forM_upt_run:
  assumes "forM [a..<b] f s = Inr s'" and "I a s" and "a \<le> b"
    and "\<And>i s s'. a \<le> i \<Longrightarrow> i < b \<Longrightarrow> I i s \<Longrightarrow> f i s = Inr s' \<Longrightarrow> I (Suc i) s'"
  shows "I b s'"
  using assms(3,1,4)
proof (induction b arbitrary: s' rule: dec_induct)
  case base
  then show ?case using assms(2) by simp
next
  case (step n)
  from step.prems(1) step.hyps(1) obtain s1 where s1: "forM [a..<n] f s = Inr s1"
    and last: "f n s1 = Inr s'"
    by (auto simp: forM_append andThen_eq_Inr)
  have "I n s1" using s1 step.prems(2) step.hyps by (intro step.IH) auto
  with last show ?case using step.prems(2)[of n s1 s'] step.hyps by simp
qed

lemma forM_upt_total:
  assumes "I a s" and "a \<le> b"
    and "\<And>i s. a \<le> i \<Longrightarrow> i < b \<Longrightarrow> I i s \<Longrightarrow> \<exists>s'. f i s = Inr s' \<and> I (Suc i) s'"
  shows "\<exists>s'. forM [a..<b] f s = Inr s' \<and> I b s'"
  using assms(2,3)
proof (induction b rule: dec_induct)
  case base
  then show ?case using assms(1) by simp
next
  case (step n)
  have "\<exists>s'. forM [a..<n] f s = Inr s' \<and> I n s'"
    using step.prems step.hyps by (intro step.IH) auto
  then obtain s1 where s1: "forM [a..<n] f s = Inr s1" "I n s1" by blast
  from step.prems[of n s1] step.hyps s1(2) obtain s' where "f n s1 = Inr s'" "I (Suc n) s'"
    by auto
  with s1(1) step.hyps(1) show ?case by (simp add: forM_append)
qed

lemma forM_down_run:
  assumes "forM (rev [0..<n]) f s = Inr s'" and "I n s"
    and "\<And>i s s'. i < n \<Longrightarrow> I (Suc i) s \<Longrightarrow> f i s = Inr s' \<Longrightarrow> I i s'"
  shows "I 0 s'"
  using assms
proof (induction n arbitrary: s)
  case 0
  then show ?case by simp
next
  case (Suc n)
  from Suc.prems(1) obtain s1 where s1: "f n s = Inr s1"
    and rest: "forM (rev [0..<n]) f s1 = Inr s'"
    by (auto simp: andThen_eq_Inr)
  have "I n s1" using Suc.prems(3)[of n s s1] Suc.prems(2) s1 by simp
  with rest show ?case using Suc.prems(3) by (intro Suc.IH[of s1]) auto
qed

lemma forM_down_total:
  assumes "I n s"
    and "\<And>i s. i < n \<Longrightarrow> I (Suc i) s \<Longrightarrow> \<exists>s'. f i s = Inr s' \<and> I i s'"
  shows "\<exists>s'. forM (rev [0..<n]) f s = Inr s' \<and> I 0 s'"
  using assms
proof (induction n arbitrary: s)
  case 0
  then show ?case by simp
next
  case (Suc n)
  from Suc.prems(2)[of n s] Suc.prems(1) obtain s1 where s1: "f n s = Inr s1" "I n s1"
    by auto
  have "\<exists>s'. forM (rev [0..<n]) f s1 = Inr s' \<and> I 0 s'"
    using s1(2) Suc.prems(2) by (intro Suc.IH) auto
  with s1(1) show ?case by simp
qed

lemma wf_netD:
  assumes "wf_net h n szs" and "i < length szs - 1"
  shows "okd h (Weights n ! i)" "Rows (Weights n ! i) = szs ! i"
    "Cols (Weights n ! i) = szs ! Suc i" "okd h (Biases n ! i)" "Rows (Biases n ! i) = 1"
    "Cols (Biases n ! i) = szs ! Suc i" "i < length (Weights n)" "i < length (Biases n)"
  using assms by (simp_all add: wf_net_def)

lemma wf_net_mods:
  assumes "wf_net h n szs" and "mods S h h'"
  shows "wf_net h' n szs"
  using assms okd_mods[OF _ assms(2)] by (simp add: wf_net_def)

lemma params_nth:
  assumes "wf_net h n szs" and "i < length szs - 1"
  shows "params h n ! i = (val h (Weights n ! i), val h (Biases n ! i))"
  using assms by (simp add: params_def wf_net_def)

lemma z_at_dims:
  assumes "wf_net h n szs" and "i < length szs - 1"
  shows "nc (z_at (params h n) x i) = szs ! Suc i" "nr (z_at (params h n) x i) = nr (act_at (params h n) x i)"
  using wf_netD[OF assms] by (simp_all add: z_at_def params_nth[OF assms])

lemma act_at_Suc: "act_at ps x (Suc i) = mapply sigmoidMatrix (z_at ps x i)"
  by (simp add: z_at_def)

lemma act_at_nr: "nr (act_at ps x k) = nr x"
  by (induction k) simp_all

lemma act_at_nc:
  assumes "wf_net h n szs" and "k < length szs" and "nc x = szs ! 0"
  shows "nc (act_at (params h n) x k) = szs ! k"
proof (cases k)
  case 0
  then show ?thesis using assms(3) by simp
next
  case (Suc i)
  then have "i < length szs - 1" using assms(2) by simp
  from z_at_dims(1)[OF assms(1) this] Suc show ?thesis by (simp add: act_at_Suc del: act_at.simps)
qed

subsection \<open>One layer: multiply, add the bias, apply the sigmoid\<close>

lemma wrote_step:
  assumes "wrote h m h' m' V" and "loc (length h0) m" and "mods {} h0 h"
  shows "mods {} h0 h'" "loc (length h0) m'" "okd h' m'"
proof -
  show "mods {} h0 h'" using assms by (rule wrote_prefix)
  show "loc (length h0) m'" using assms(1,2) mods_length[OF assms(3)] by (rule wrote_loc)
  show "okd h' m'" using assms(1) by (rule wroteD)
qed

lemma ff_layer_frame:
  assumes "ff_layer n i (ptr, h) = Inr (ptr', h')"
  shows "mods {} h h'"
proof -
  from assms obtain wi w1 h1 bi w2 h2 where
    r1: "Mul zeroDense (M ptr) (M wi) h = Inr (w1, h1)" and
    r2: "Add w1 (M w1) (M bi) h1 = Inr (w2, h2)" and
    r3: "Apply sigmoidMatrix w2 (M w2) h2 = Inr (ptr', h')"
    by (auto simp: ff_layer_def andThen_eq_Inr)
  note s1 = wrote_step[OF Mul_wrote[OF okd_zeroDense r1] loc_zeroDense mods_refl]
  note s2 = wrote_step[OF Add_wrote[OF s1(3) r2] s1(2) s1(1)]
  note s3 = wrote_step[OF Apply_wrote[OF s2(3) r3] s2(2) s2(1)]
  show ?thesis by (rule s3(1))
qed

lemma FeedForward_frame:
  assumes "FeedForward n input h = Inr (out, h')"
  shows "mods {} h h'"
proof -
  have "(\<lambda>(p, k). mods {} h k) (out, h')"
  proof (rule forM_inv[OF assms[unfolded FeedForward_def]])
    show "(\<lambda>(p, k). mods {} h k) (input, h)" by simp
  next
    fix i s s'
    assume P: "(\<lambda>(p, k). mods {} h k) s" and run: "ff_layer n i s = Inr s'"
    obtain p k where s: "s = (p, k)" by (cases s)
    obtain p' k' where s': "s' = (p', k')" by (cases s')
    from run have "mods {} k k'" unfolding s s' by (rule ff_layer_frame)
    with P show "(\<lambda>(p, k). mods {} h k) s'"
      unfolding s s' using mods_trans[of "{}" h k "{}" k'] by simp
  qed
  then show ?thesis by simp
qed

lemma layer_total:
  assumes a: "okd h a" and w: "okd h w" and b: "okd h b"
    and dims: "Cols a = Rows w" "Rows b = Rows a" "Cols b = Cols w"
  shows "\<exists>a1 h1 a2 h2. Mul zeroDense (M a) (M w) h = Inr (a1, h1)
     \<and> Add a1 (M a1) (M b) h1 = Inr (a2, h2)
     \<and> okd h2 a2 \<and> loc (length h) a2 \<and> mods {} h h2
     \<and> val h2 a2 = madd (mmul (val h a) (val h w)) (val h b)"
proof -
  have "\<exists>m' h'. Mul zeroDense (M a) (M w) h = Inr (m', h')"
    using dims by (intro Mul_total[OF okd_zeroDense]) simp_all
  then obtain a1 h1 where r1: "Mul zeroDense (M a) (M w) h = Inr (a1, h1)" by blast
  note w1 = Mul_wrote[OF okd_zeroDense r1]
  note s1 = wrote_step[OF w1 loc_zeroDense mods_refl]
  have v1: "val h1 a1 = mmul (val h a) (val h w)" using wroteD(2)[OF w1] by simp
  have b1: "okd h1 b" "val h1 b = val h b"
    using okd_mods[OF b s1(1)] val_mods[OF b s1(1)] by simp_all
  have "\<exists>m' h'. Add a1 (M a1) (M b) h1 = Inr (m', h')"
    using wroteD(3,4)[OF w1] dims by (intro Add_total[OF s1(3)]) simp_all
  then obtain a2 h2 where r2: "Add a1 (M a1) (M b) h1 = Inr (a2, h2)" by blast
  note w2 = Add_wrote[OF s1(3) r2]
  note s2 = wrote_step[OF w2 s1(2) s1(1)]
  have "val h2 a2 = madd (mmul (val h a) (val h w)) (val h b)"
    using wroteD(2)[OF w2] v1 b1 by simp
  with r1 r2 s2 show ?thesis by blast
qed

lemma sigmoid_total:
  assumes a: "okd h a" and l: "loc (length h0) a" and m: "mods {} h0 h"
  shows "\<exists>a' h'. Apply sigmoidMatrix a (M a) h = Inr (a', h')
     \<and> okd h' a' \<and> loc (length h0) a' \<and> mods {} h0 h' \<and> mods (addr a') h h'
     \<and> addr a' \<subseteq> addr a \<union> {length h}
     \<and> val h' a' = mapply sigmoidMatrix (val h a)"
proof -
  have "\<exists>m' h'. Apply sigmoidMatrix a (M a) h = Inr (m', h')"
    by (intro Apply_total[OF a]) simp
  then obtain a' h' where r: "Apply sigmoidMatrix a (M a) h = Inr (a', h')" by blast
  note w = Apply_wrote[OF a r]
  note s = wrote_step[OF w l m]
  have "val h' a' = mapply sigmoidMatrix (val h a)" using wroteD(2)[OF w] by simp
  with r s wroteD(5,6)[OF w] show ?thesis by blast
qed

lemma ff_layer_total:
  assumes wf: "wf_net h n szs" and i: "i < length szs - 1"
    and p: "okd h ptr" "Rows ptr = 1" "Cols ptr = szs ! i"
  shows "\<exists>ptr' h'. ff_layer n i (ptr, h) = Inr (ptr', h') \<and> mods {} h h' \<and> okd h' ptr'
     \<and> val h' ptr' = mapply sigmoidMatrix
          (madd (mmul (val h ptr) (val h (Weights n ! i))) (val h (Biases n ! i)))"
proof -
  note d = wf_netD[OF wf i]
  from layer_total[OF p(1) d(1) d(4)] p d
  obtain a1 h1 a2 h2 where r1: "Mul zeroDense (M ptr) (M (Weights n ! i)) h = Inr (a1, h1)"
    and r2: "Add a1 (M a1) (M (Biases n ! i)) h1 = Inr (a2, h2)"
    and f2: "okd h2 a2" "loc (length h) a2" "mods {} h h2"
      "val h2 a2 = madd (mmul (val h ptr) (val h (Weights n ! i))) (val h (Biases n ! i))"
    by auto
  from sigmoid_total[OF f2(1,2,3)]
  obtain a3 h3 where r3: "Apply sigmoidMatrix a2 (M a2) h2 = Inr (a3, h3)"
    and f3: "okd h3 a3" "mods {} h h3" "val h3 a3 = mapply sigmoidMatrix (val h2 a2)"
    by blast
  have "ff_layer n i (ptr, h) = Inr (a3, h3)"
    using r1 r2 r3 d(7,8) by (simp add: ff_layer_def)
  with f3 f2(4) show ?thesis by simp
qed

lemma FeedForward_total:
  assumes wf: "wf_net h n szs" and inp: "okd h input" "Rows input = 1" "Cols input = szs ! 0"
  shows "\<exists>out h'. FeedForward n input h = Inr (out, h') \<and> okd h' out \<and> mods {} h h'
     \<and> val h' out = act_at (params h n) (val h input) (length szs - 1)"
proof -
  let ?L = "length szs - 1"
  let ?ps = "params h n"
  let ?x = "val h input"
  define I where "I = (\<lambda>k (p, hk). mods {} h hk \<and> okd hk p \<and> val hk p = act_at ?ps ?x k)"
  have L: "nat (NumLayers n - 1) = ?L" using wf by (simp add: wf_net_def)
  have "\<exists>s'. forM [0..<?L] (ff_layer n) (input, h) = Inr s' \<and> I ?L s'"
  proof (rule forM_upt_total)
    show "I 0 (input, h)" using inp by (simp add: I_def)
    show "0 \<le> ?L" by simp
  next
    fix i s
    assume i: "i < ?L" and Ii: "I i s"
    obtain p hk where s: "s = (p, hk)" by (cases s)
    from Ii have m: "mods {} h hk" and ok: "okd hk p" and v: "val hk p = act_at ?ps ?x i"
      by (simp_all add: I_def s)
    have wfk: "wf_net hk n szs" using wf m by (rule wf_net_mods)
    have xc: "nc ?x = szs ! 0" using inp by simp
    have "nr (val hk p) = 1" "nc (val hk p) = szs ! i"
      using act_at_nr[of ?ps ?x i] act_at_nc[OF wf _ xc, of i] inp i by (simp_all add: v)
    then have pd: "Rows p = 1" "Cols p = szs ! i" by simp_all
    from ff_layer_total[OF wfk i ok pd]
    obtain p' h' where r: "ff_layer n i (p, hk) = Inr (p', h')" and f: "mods {} hk h'" "okd h' p'"
      "val h' p' = mapply sigmoidMatrix
          (madd (mmul (val hk p) (val hk (Weights n ! i))) (val hk (Biases n ! i)))"
      by blast
    note d = wf_netD[OF wf i]
    have "val hk (Weights n ! i) = val h (Weights n ! i)" "val hk (Biases n ! i) = val h (Biases n ! i)"
      using val_mods[OF d(1) m] val_mods[OF d(4) m] by simp_all
    with f(3) v have "val h' p' = act_at ?ps ?x (Suc i)"
      by (simp add: params_nth[OF wf i])
    moreover have "mods {} h h'" using mods_trans[OF m f(1)] by simp
    ultimately show "\<exists>s'. ff_layer n i s = Inr s' \<and> I (Suc i) s'"
      using r f(2) by (simp add: s I_def)
  qed
  then show ?thesis by (auto simp: FeedForward_def L I_def)
qed

lemma locals_mods: "locals n h ms \<Longrightarrow> mods S h h' \<Longrightarrow> locals n h' ms"
  using okd_mods by (auto simp: locals_def)

lemma locals_update: "locals n h ms \<Longrightarrow> okd h m \<Longrightarrow> loc n m \<Longrightarrow> locals n h (ms[i := m])"
  using set_update_subset_insert[of ms i m] by (auto simp: locals_def)

lemma locals_nth: "locals n h ms \<Longrightarrow> i < length ms \<Longrightarrow> okd h (ms ! i) \<and> loc n (ms ! i)"
  by (simp add: locals_def)

lemma locals_replicate [simp]: "locals n h (replicate k zeroDense)"
  by (simp add: locals_def)

lemma Clone_step:
  assumes "Clone a h = Inr (m', h')" and "mods {} h0 h"
  shows "mods {} h0 h'" "okd h' m'" "loc (length h0) m'" "mods {} h h'"
proof -
  note c = Clone_wrote[OF assms(1)]
  show "mods {} h h'" by (simp add: c(3))
  then show "mods {} h0 h'" using mods_trans[OF assms(2), of "{}" h'] by simp
  show "okd h' m'" using c(1) by (rule wroteD)
  show "loc (length h0) m'" using c(2) mods_length[OF assms(2)] by (simp add: loc_def)
qed

lemma wrote_locals:
  assumes "wrote h m h' m' V" and "locals n h ms"
  shows "locals n h' ms"
  using assms(2) wroteD(5)[OF assms(1)] by (rule locals_mods)

subsection \<open>Backpropagation writes only arrays that it allocated\<close>

lemma bp_forward_frame:
  assumes run: "bp_forward n i (acts, zs, h) = Inr (acts', zs', h')"
    and m: "mods {} h0 h" and l: "locals (length h0) h acts" and i: "i + 1 < length acts"
  shows "mods {} h0 h'" "locals (length h0) h' acts'" "length acts' = length acts"
proof -
  from run obtain wi a1 h1 bi a2 h2 z h3 a3 where
    r1: "Mul (acts ! (i + 1)) (M (acts ! i)) (M wi) h = Inr (a1, h1)" and
    r2: "Add a1 (M a1) (M bi) h1 = Inr (a2, h2)" and
    r3: "Clone (M a2) h2 = Inr (z, h3)" and
    r4: "Apply sigmoidMatrix a2 (M a2) h3 = Inr (a3, h')" and
    res: "acts' = acts[i + 1 := a3]"
    by (auto simp: bp_forward_def andThen_eq_Inr)
  note r = locals_nth[OF l i]
  note w1 = Mul_wrote[OF conjunct1[OF r] r1]
  note s1 = wrote_step[OF w1 conjunct2[OF r] m]
  note w2 = Add_wrote[OF s1(3) r2]
  note s2 = wrote_step[OF w2 s1(2) s1(1)]
  note s3 = Clone_step[OF r3 s2(1)]
  have ok3: "okd h3 a2" using s2(3) s3(4) by (rule okd_mods)
  note w4 = Apply_wrote[OF ok3 r4]
  note s4 = wrote_step[OF w4 s2(2) s3(1)]
  show "mods {} h0 h'" by (rule s4(1))
  have "locals (length h0) h' acts"
    using wrote_locals[OF w4 locals_mods[OF wrote_locals[OF w2 wrote_locals[OF w1 l]] s3(4)]] .
  then show "locals (length h0) h' acts'" unfolding res using s4(3) s4(2) by (rule locals_update)
  show "length acts' = length acts" by (simp add: res)
qed

lemma bp_clone_frame:
  assumes run: "bp_clone n i (nB, nW, h) = Inr (nB', nW', h')"
    and m: "mods {} h0 h" and l: "locals (length h0) h nB" "locals (length h0) h nW"
  shows "mods {} h0 h'" "locals (length h0) h' nB'" "locals (length h0) h' nW'"
    "length nB' = length nB" "length nW' = length nW"
proof -
  from run obtain wi w h1 bi b where
    r1: "Clone (M wi) h = Inr (w, h1)" and
    r2: "Clone (M bi) h1 = Inr (b, h')" and
    res: "nB' = nB[i := b]" "nW' = nW[i := w]"
    by (auto simp: bp_clone_def andThen_eq_Inr)
  note s1 = Clone_step[OF r1 m]
  note s2 = Clone_step[OF r2 s1(1)]
  show "mods {} h0 h'" by (rule s2(1))
  have mm: "mods {} h h'" using mods_trans[OF s1(4) s2(4)] by simp
  show "locals (length h0) h' nB'" unfolding res
    using locals_mods[OF l(1) mm] s2(2,3) by (rule locals_update)
  show "locals (length h0) h' nW'" unfolding res
    using locals_mods[OF l(2) mm] okd_mods[OF s1(2) s2(4)] s1(3) by (rule locals_update)
  show "length nB' = length nB" "length nW' = length nW" by (simp_all add: res)
qed

lemma bp_backward_frame:
  assumes run: "bp_backward n acts zs i (delta, nB, nW, h) = Inr (delta', nB', nW', h')"
    and m: "mods {} h0 h" and d: "okd h delta" "loc (length h0) delta"
    and l: "locals (length h0) h nB" "locals (length h0) h nW" and i: "i < length nW"
  shows "mods {} h0 h'" "okd h' delta'" "loc (length h0) delta'"
    "locals (length h0) h' nB'" "locals (length h0) h' nW'"
    "length nB' = length nB" "length nW' = length nW"
proof -
  from run obtain sp h1 wi tmp h2 h3 w where
    r1: "Apply sigmoidPrimeMatrix zeroDense (M (zs ! i)) h = Inr (sp, h1)" and
    r2: "Mul zeroDense (M delta) (T wi) h1 = Inr (tmp, h2)" and
    r3: "MulElem (Reset delta) (M tmp) (M sp) h2 = Inr (delta', h3)" and
    r4: "Mul (nW ! i) (T (acts ! i)) (M delta') h3 = Inr (w, h')" and
    res: "nB' = nB[i := delta']" "nW' = nW[i := w]"
    by (auto simp: bp_backward_def andThen_eq_Inr)
  note w1 = Apply_wrote[OF okd_zeroDense r1]
  note s1 = wrote_step[OF w1 loc_zeroDense m]
  note w2 = Mul_wrote[OF okd_zeroDense r2]
  note s2 = wrote_step[OF w2 loc_zeroDense s1(1)]
  have d2: "okd h2 (Reset delta)"
    using okd_Reset[OF okd_mods[OF okd_mods[OF d(1) wroteD(5)[OF w1]] wroteD(5)[OF w2]]] .
  have ld: "loc (length h0) (Reset delta)" using d(2) by (simp add: loc_def)
  note w3 = MulElem_wrote[OF d2 r3]
  note s3 = wrote_step[OF w3 ld s2(1)]
  note l3 = wrote_locals[OF w3 wrote_locals[OF w2 wrote_locals[OF w1 l(2)]]]
  note lb3 = wrote_locals[OF w3 wrote_locals[OF w2 wrote_locals[OF w1 l(1)]]]
  note r = locals_nth[OF l3 i]
  note w4 = Mul_wrote[OF conjunct1[OF r] r4]
  note s4 = wrote_step[OF w4 conjunct2[OF r] s3(1)]
  show "mods {} h0 h'" by (rule s4(1))
  show "okd h' delta'" using s3(3) wroteD(5)[OF w4] by (rule okd_mods)
  show "loc (length h0) delta'" by (rule s3(2))
  show "locals (length h0) h' nB'" unfolding res
    using wrote_locals[OF w4 lb3] \<open>okd h' delta'\<close> s3(2) by (rule locals_update)
  show "locals (length h0) h' nW'" unfolding res
    using wrote_locals[OF w4 l3] s4(3) s4(2) by (rule locals_update)
  show "length nB' = length nB" "length nW' = length nW" by (simp_all add: res)
qed

lemma bp_output_frame:
  assumes run: "bp_output data sz acts zs (nB, nW, h) = Inr (delta, nB', nW', h')"
    and m: "mods {} h0 h" and l: "locals (length h0) h nB" "locals (length h0) h nW"
    and len: "length nW = sz"
  shows "mods {} h0 h'" "okd h' delta" "loc (length h0) delta"
    "locals (length h0) h' nB'" "locals (length h0) h' nW'"
    "length nB' = length nB" "length nW' = length nW"
proof -
  from run obtain err h4 tmp h5 h6 b h7 w where
    r4: "quadraticCost (acts ! sz) (data ! 1) h = Inr (err, h4)" and
    sz: "sz \<noteq> 0" and
    r5: "Apply sigmoidPrimeMatrix zeroDense (M (zs ! (sz - 1))) h4 = Inr (tmp, h5)" and
    r6: "MulElem zeroDense (M err) (M tmp) h5 = Inr (delta, h6)" and
    r7: "Clone (M delta) h6 = Inr (b, h7)" and
    r8: "Mul (nW ! (sz - 1)) (T (acts ! (sz - 1))) (M delta) h7 = Inr (w, h')" and
    res: "nB' = nB[sz - 1 := b]" "nW' = nW[sz - 1 := w]"
    by (auto simp: bp_output_def andThen_eq_Inr split: if_splits)
  note w4 = Sub_wrote[OF okd_zeroDense r4[unfolded quadraticCost_def]]
  note s4 = wrote_step[OF w4 loc_zeroDense m]
  note w5 = Apply_wrote[OF okd_zeroDense r5]
  note s5 = wrote_step[OF w5 loc_zeroDense s4(1)]
  note w6 = MulElem_wrote[OF okd_zeroDense r6]
  note s6 = wrote_step[OF w6 loc_zeroDense s5(1)]
  note s7 = Clone_step[OF r7 s6(1)]
  note lB7 = locals_mods[OF wrote_locals[OF w6 wrote_locals[OF w5 wrote_locals[OF w4 l(1)]]] s7(4)]
  note lW7 = locals_mods[OF wrote_locals[OF w6 wrote_locals[OF w5 wrote_locals[OF w4 l(2)]]] s7(4)]
  have last: "sz - 1 < length nW" using sz len by simp
  note r = locals_nth[OF lW7 last]
  note w8 = Mul_wrote[OF conjunct1[OF r] r8]
  note s8 = wrote_step[OF w8 conjunct2[OF r] s7(1)]
  show "mods {} h0 h'" by (rule s8(1))
  show "okd h' delta" using okd_mods[OF okd_mods[OF s6(3) s7(4)] wroteD(5)[OF w8]] .
  show "loc (length h0) delta" by (rule s6(2))
  show "locals (length h0) h' nB'" unfolding res
    using wrote_locals[OF w8 lB7] okd_mods[OF s7(2) wroteD(5)[OF w8]] s7(3)
    by (rule locals_update)
  show "locals (length h0) h' nW'" unfolding res
    using wrote_locals[OF w8 lW7] s8(3) s8(2) by (rule locals_update)
  show "length nB' = length nB" "length nW' = length nW" by (simp_all add: res)
qed

lemma backpropQuadCost_frame:
  assumes run: "backpropQuadCost n data eta h = Inr ((nB, nW), h')"
  shows "mods {} h h'" "locals (length h) h' nB" "locals (length h) h' nW"
    "length nB = nat (NumLayers n - 1)" "length nW = nat (NumLayers n - 1)"
proof -
  let ?sz = "nat (NumLayers n - 1)"
  let ?n0 = "length h"
  from run obtain a0 h1 acts zs h2 nB1 nW1 h3 delta nB2 nW2 h4 delta' where
    r1: "Clone (M (data ! 0)) h = Inr (a0, h1)" and
    r2: "forM [0..<?sz] (bp_forward n)
          ((replicate (?sz + 1) zeroDense)[0 := a0], replicate ?sz zeroDense, h1)
         = Inr (acts, zs, h2)" and
    r3: "forM [0..<?sz] (bp_clone n) (replicate ?sz zeroDense, replicate ?sz zeroDense, h2)
         = Inr (nB1, nW1, h3)" and
    r4: "bp_output data ?sz acts zs (nB1, nW1, h3) = Inr (delta, nB2, nW2, h4)" and
    r9: "forM (rev [0..<?sz - 1]) (bp_backward n acts zs) (delta, nB2, nW2, h4)
         = Inr (delta', nB, nW, h')"
    by (auto simp: backpropQuadCost_def Let_def andThen_eq_Inr split: if_splits)
  note s1 = Clone_step[OF r1 mods_refl]
  \<comment> \<open>the forward loop\<close>
  define P where "P = (\<lambda>(acts, zs :: dense list, k).
     mods {} h k \<and> locals ?n0 k acts \<and> length acts = ?sz + 1)"
  have "P (acts, zs, h2)"
  proof (rule forM_inv[OF r2])
    show "P ((replicate (?sz + 1) zeroDense)[0 := a0], replicate ?sz zeroDense, h1)"
      using s1 by (simp add: P_def locals_def)
  next
    fix i s s'
    assume i: "i \<in> set [0..<?sz]" and Ps: "P s" and run: "bp_forward n i s = Inr s'"
    obtain a zz k where s: "s = (a, zz, k)" by (cases s)
    obtain a' zz' k' where s': "s' = (a', zz', k')" by (cases s')
    from Ps have p: "mods {} h k" "locals ?n0 k a" "length a = ?sz + 1" by (simp_all add: P_def s)
    have "i + 1 < length a" using i p(3) by simp
    from bp_forward_frame[OF run[unfolded s s'] p(1,2) this] p(3)
    show "P s'" by (simp add: P_def s')
  qed
  then have f2: "mods {} h h2" by (simp add: P_def)
  \<comment> \<open>the clone loop\<close>
  define Q where "Q = (\<lambda>(nB, nW, k).
     mods {} h k \<and> locals ?n0 k nB \<and> locals ?n0 k nW \<and> length nB = ?sz \<and> length nW = ?sz)"
  have "Q (nB1, nW1, h3)"
  proof (rule forM_inv[OF r3])
    show "Q (replicate ?sz zeroDense, replicate ?sz zeroDense, h2)"
      using f2 by (simp add: Q_def)
  next
    fix i s s'
    assume Qs: "Q s" and run: "bp_clone n i s = Inr s'"
    obtain x y k where s: "s = (x, y, k)" by (cases s)
    obtain x' y' k' where s': "s' = (x', y', k')" by (cases s')
    from Qs have q: "mods {} h k" "locals ?n0 k x" "locals ?n0 k y" "length x = ?sz" "length y = ?sz"
      by (simp_all add: Q_def s)
    from bp_clone_frame[OF run[unfolded s s'] q(1,2,3)] q(4,5)
    show "Q s'" by (simp add: Q_def s')
  qed
  then have f3: "mods {} h h3" "locals ?n0 h3 nB1" "locals ?n0 h3 nW1"
    "length nB1 = ?sz" "length nW1 = ?sz" by (simp_all add: Q_def)
  note s4 = bp_output_frame[OF r4 f3(1,2,3,5)]
  \<comment> \<open>the backward loop\<close>
  define R where "R = (\<lambda>(d, nB, nW, k).
     mods {} h k \<and> okd k d \<and> loc ?n0 d \<and> locals ?n0 k nB \<and> locals ?n0 k nW
     \<and> length nB = ?sz \<and> length nW = ?sz)"
  have "R (delta', nB, nW, h')"
  proof (rule forM_inv[OF r9])
    show "R (delta, nB2, nW2, h4)"
      using s4 f3(4,5) by (simp add: R_def)
  next
    fix i s s'
    assume i: "i \<in> set (rev [0..<?sz - 1])" and Rs: "R s"
      and run: "bp_backward n acts zs i s = Inr s'"
    obtain d x y k where s: "s = (d, x, y, k)" by (cases s)
    obtain d' x' y' k' where s': "s' = (d', x', y', k')" by (cases s')
    from Rs have q: "mods {} h k" "okd k d" "loc ?n0 d" "locals ?n0 k x" "locals ?n0 k y"
      "length x = ?sz" "length y = ?sz" by (simp_all add: R_def s)
    have "i < length y" using i q(7) by simp
    from bp_backward_frame[OF run[unfolded s s'] q(1,2,3,4,5) this] q(6,7)
    show "R s'" by (simp add: R_def s')
  qed
  then show "mods {} h h'" "locals (length h) h' nB" "locals (length h) h' nW"
    "length nB = ?sz" "length nW = ?sz" by (simp_all add: R_def)
qed

lemma wrote_mods: "wrote h m h' m' V \<Longrightarrow> mods (addr m) h h'"
  by (auto simp: wrote_def mods_def)

lemma wrote_fresh:
  assumes "wrote h zeroDense h' m' V"
  shows "mods {} h h'" "addr m' \<subseteq> {length h}" "okd h' m'" "val h' m' = V"
    "Rows m' = nr V" "Cols m' = nc V"
  using wrote_mods[OF assms] wroteD[OF assms] by simp_all

lemma wf_grads_mods: "wf_grads h szs nB nW \<Longrightarrow> mods S h h' \<Longrightarrow> wf_grads h' szs nB nW"
  using okd_mods by (auto simp: wf_grads_def)

subsection \<open>The forward loop\<close>

lemma bp_forward_total:
  assumes wf: "wf_net h n szs" and i: "i < length szs - 1"
    and z: "acts ! (i + 1) = zeroDense"
    and a: "okd h (acts ! i)" "Rows (acts ! i) = 1" "Cols (acts ! i) = szs ! i"
  shows "\<exists>a' z' h'. bp_forward n i (acts, zs, h) = Inr (acts[i + 1 := a'], zs[i := z'], h')
     \<and> mods {} h h' \<and> okd h' a' \<and> okd h' z'
     \<and> val h' z' = madd (mmul (val h (acts ! i)) (val h (Weights n ! i))) (val h (Biases n ! i))
     \<and> val h' a' = mapply sigmoidMatrix (val h' z')"
proof -
  note d = wf_netD[OF wf i]
  from layer_total[OF a(1) d(1) d(4)] a d
  obtain a1 h1 a2 h2 where r1: "Mul zeroDense (M (acts ! i)) (M (Weights n ! i)) h = Inr (a1, h1)"
    and r2: "Add a1 (M a1) (M (Biases n ! i)) h1 = Inr (a2, h2)"
    and f2: "okd h2 a2" "loc (length h) a2" "mods {} h h2"
      "val h2 a2 = madd (mmul (val h (acts ! i)) (val h (Weights n ! i))) (val h (Biases n ! i))"
    by auto
  obtain z' h3 where r3: "Clone (M a2) h2 = Inr (z', h3)" using Clone_total by blast
  note c = Clone_wrote[OF r3]
  note s3 = Clone_step[OF r3 f2(3)]
  have ok3: "okd h3 a2" using f2(1) s3(4) by (rule okd_mods)
  have v3: "val h3 a2 = val h2 a2" using val_mods[OF f2(1) s3(4)] by simp
  have vz3: "val h3 z' = val h2 a2" using wroteD(2)[OF c(1)] by simp
  from sigmoid_total[OF ok3 f2(2) s3(1)]
  obtain a3 h4 where r4: "Apply sigmoidMatrix a2 (M a2) h3 = Inr (a3, h4)"
    and f4: "okd h4 a3" "mods {} h h4" "mods (addr a3) h3 h4" "addr a3 \<subseteq> addr a2 \<union> {length h3}"
      "val h4 a3 = mapply sigmoidMatrix (val h3 a2)"
    by blast
  have "length h2 \<notin> addr a3"
  proof
    assume "length h2 \<in> addr a3"
    with f4(4) have "length h2 \<in> addr a2 \<or> length h2 = length h3" by auto
    with addr_lt[OF f2(1), of "length h2"] show False by (auto simp: c(3))
  qed
  then have "addr z' \<inter> addr a3 = {}" using c(2) by simp
  then have vz4: "val h4 z' = val h3 z'" using val_mods[OF s3(2) f4(3)] by simp
  have okz4: "okd h4 z'" using s3(2) f4(3) by (rule okd_mods)
  have "bp_forward n i (acts, zs, h) = Inr (acts[i + 1 := a3], zs[i := z'], h4)"
    using r1 r2 r3 r4 d(7,8) z by (simp add: bp_forward_def)
  moreover have "val h4 a3 = mapply sigmoidMatrix (val h4 z')"
    using f4(5) v3 vz3 vz4 by simp
  moreover have "val h4 z' = madd (mmul (val h (acts ! i)) (val h (Weights n ! i))) (val h (Biases n ! i))"
    using vz4 vz3 f2(4) by simp
  ultimately show ?thesis using f4(1,2) okz4 by blast
qed

lemma bp_forward_loop:
  assumes wf: "wf_net h n szs" and a0: "okd h a0" "Rows a0 = 1" "Cols a0 = szs ! 0"
  shows "\<exists>acts zs h'. forM [0..<length szs - 1] (bp_forward n)
        ((replicate (length szs - 1 + 1) zeroDense)[0 := a0],
         replicate (length szs - 1) zeroDense, h) = Inr (acts, zs, h')
     \<and> mods {} h h' \<and> length acts = length szs \<and> length zs = length szs - 1
     \<and> (\<forall>i<length szs. okd h' (acts ! i) \<and> val h' (acts ! i) = act_at (params h n) (val h a0) i)
     \<and> (\<forall>i<length szs - 1. okd h' (zs ! i) \<and> val h' (zs ! i) = z_at (params h n) (val h a0) i)"
proof -
  let ?sz = "length szs - 1"
  let ?ps = "params h n"
  let ?x = "val h a0"
  have L: "2 \<le> length szs" using wf by (simp add: wf_net_def)
  define I where "I = (\<lambda>k (acts, zs, hk).
     mods {} h hk \<and> length acts = length szs \<and> length zs = ?sz
     \<and> (\<forall>i\<le>k. okd hk (acts ! i) \<and> val hk (acts ! i) = act_at ?ps ?x i)
     \<and> (\<forall>i<k. okd hk (zs ! i) \<and> val hk (zs ! i) = z_at ?ps ?x i)
     \<and> (\<forall>i. k < i \<and> i \<le> ?sz \<longrightarrow> acts ! i = zeroDense))"
  have "\<exists>s'. forM [0..<?sz] (bp_forward n)
          ((replicate (?sz + 1) zeroDense)[0 := a0], replicate ?sz zeroDense, h) = Inr s'
        \<and> I ?sz s'"
  proof (rule forM_upt_total)
    show "I 0 ((replicate (?sz + 1) zeroDense)[0 := a0], replicate ?sz zeroDense, h)"
      using a0 L by (auto simp: I_def nth_Cons')
    show "0 \<le> ?sz" by simp
  next
    fix i s
    assume i: "i < ?sz" and Ii: "I i s"
    obtain acts zs hk where s: "s = (acts, zs, hk)" by (cases s)
    from Ii have m: "mods {} h hk" and len: "length acts = length szs" "length zs = ?sz"
      and A: "\<And>j. j \<le> i \<Longrightarrow> okd hk (acts ! j) \<and> val hk (acts ! j) = act_at ?ps ?x j"
      and Z: "\<And>j. j < i \<Longrightarrow> okd hk (zs ! j) \<and> val hk (zs ! j) = z_at ?ps ?x j"
      and zero: "\<And>j. i < j \<Longrightarrow> j \<le> ?sz \<Longrightarrow> acts ! j = zeroDense"
      by (simp_all add: I_def s)
    have wfk: "wf_net hk n szs" using wf m by (rule wf_net_mods)
    have xc: "nc ?x = szs ! 0" using a0 by simp
    have ai: "okd hk (acts ! i)" "val hk (acts ! i) = act_at ?ps ?x i" using A[of i] by simp_all
    have "nr (val hk (acts ! i)) = 1" "nc (val hk (acts ! i)) = szs ! i"
      using act_at_nr[of ?ps ?x i] act_at_nc[OF wf _ xc, of i] a0 i by (simp_all add: ai(2))
    then have pd: "Rows (acts ! i) = 1" "Cols (acts ! i) = szs ! i" by simp_all
    have zi: "acts ! (i + 1) = zeroDense" using zero[of "i + 1"] i by simp
    from bp_forward_total[OF wfk i zi ai(1) pd, of zs]
    obtain a' z' h' where r: "bp_forward n i (acts, zs, hk) = Inr (acts[i + 1 := a'], zs[i := z'], h')"
      and f: "mods {} hk h'" "okd h' a'" "okd h' z'"
        "val h' z' = madd (mmul (val hk (acts ! i)) (val hk (Weights n ! i))) (val hk (Biases n ! i))"
        "val h' a' = mapply sigmoidMatrix (val h' z')"
      by blast
    note d = wf_netD[OF wf i]
    have pv: "val hk (Weights n ! i) = val h (Weights n ! i)" "val hk (Biases n ! i) = val h (Biases n ! i)"
      using val_mods[OF d(1) m] val_mods[OF d(4) m] by simp_all
    have vz: "val h' z' = z_at ?ps ?x i"
      using f(4) ai(2) pv by (simp add: z_at_def params_nth[OF wf i])
    have va: "val h' a' = act_at ?ps ?x (Suc i)"
      using f(5) vz by (simp add: act_at_Suc del: act_at.simps)
    have m': "mods {} h h'" using mods_trans[OF m f(1)] by simp
    have A': "okd h' (acts[i + 1 := a'] ! j) \<and> val h' (acts[i + 1 := a'] ! j) = act_at ?ps ?x j"
      if "j \<le> Suc i" for j
    proof (cases "j = Suc i")
      case True
      then show ?thesis using f(2) va len i by simp
    next
      case False
      then have j: "j \<le> i" using that by simp
      have "okd h' (acts ! j)" using A[OF j] f(1) okd_mods by blast
      moreover have "val h' (acts ! j) = val hk (acts ! j)" using val_mods[OF _ f(1)] A[OF j] by simp
      ultimately show ?thesis using A[OF j] False by simp
    qed
    have Z': "okd h' (zs[i := z'] ! j) \<and> val h' (zs[i := z'] ! j) = z_at ?ps ?x j"
      if "j < Suc i" for j
    proof (cases "j = i")
      case True
      then show ?thesis using f(3) vz len i by simp
    next
      case False
      then have j: "j < i" using that by simp
      have "okd h' (zs ! j)" using Z[OF j] f(1) okd_mods by blast
      moreover have "val h' (zs ! j) = val hk (zs ! j)" using val_mods[OF _ f(1)] Z[OF j] by simp
      ultimately show ?thesis using Z[OF j] False by simp
    qed
    have zero': "acts[i + 1 := a'] ! j = zeroDense" if "Suc i < j" "j \<le> ?sz" for j
      using zero[of j] that by simp
    show "\<exists>s'. bp_forward n i s = Inr s' \<and> I (Suc i) s'"
      unfolding s using r m' len A' Z' zero' by (simp add: I_def)
  qed
  then obtain acts zs h' where
    r: "forM [0..<?sz] (bp_forward n)
          ((replicate (?sz + 1) zeroDense)[0 := a0], replicate ?sz zeroDense, h) = Inr (acts, zs, h')"
    and I: "I ?sz (acts, zs, h')" by auto
  have "\<forall>i<length szs. okd h' (acts ! i) \<and> val h' (acts ! i) = act_at ?ps ?x i"
    using I L by (auto simp: I_def)
  with r I show ?thesis by (auto simp: I_def)
qed

subsection \<open>The clone loop\<close>

lemma bp_clone_total:
  assumes wf: "wf_net h n szs" and i: "i < length szs - 1"
  shows "\<exists>w b. bp_clone n i (nB, nW, h)
       = Inr (nB[i := b], nW[i := w],
              h @ [el (val h (Weights n ! i)), el (val h (Biases n ! i))])
     \<and> w = hdr (szs ! i) (szs ! (i + 1)) (Slice (length h) (szs ! i * szs ! (i + 1)))
     \<and> b = hdr 1 (szs ! (i + 1)) (Slice (length h + 1) (szs ! (i + 1)))"
proof -
  note d = wf_netD[OF wf i]
  have "val (h @ [el (val h (Weights n ! i))]) (Biases n ! i) = val h (Biases n ! i)"
    using val_mods[OF d(4), of "{}" "h @ [el (val h (Weights n ! i))]"] by simp
  then show ?thesis using d by (simp add: bp_clone_def Clone_def)
qed

lemma okd_hdr_iff:
  "okd h (hdr r c (Slice a l)) \<longleftrightarrow> a < length h \<and> l = r * c \<and> l \<le> length (h ! a)"
  by (simp add: okd_def)

lemma addr_hdr [simp]: "addr (hdr r c (Slice a l)) = {a}"
  by (simp add: addr_def)

lemma bp_clone_loop:
  assumes wf: "wf_net h n szs"
  shows "\<exists>nB nW h'. forM [0..<length szs - 1] (bp_clone n)
        (replicate (length szs - 1) zeroDense, replicate (length szs - 1) zeroDense, h)
        = Inr (nB, nW, h')
     \<and> mods {} h h' \<and> length h' = length h + 2 * (length szs - 1) \<and> wf_grads h' szs nB nW
     \<and> (\<forall>i<length szs - 1. addr (nW ! i) = {length h + 2 * i})"
proof -
  let ?sz = "length szs - 1"
  define I where "I = (\<lambda>k (nB, nW, hk).
     mods {} h hk \<and> length hk = length h + 2 * k \<and> length nB = ?sz \<and> length nW = ?sz
     \<and> (\<forall>i<k. okd hk (nB ! i) \<and> Rows (nB ! i) = 1 \<and> Cols (nB ! i) = szs ! (i + 1)
        \<and> okd hk (nW ! i) \<and> Rows (nW ! i) = szs ! i \<and> Cols (nW ! i) = szs ! (i + 1)
        \<and> addr (nW ! i) = {length h + 2 * i}))"
  have "\<exists>s'. forM [0..<?sz] (bp_clone n)
          (replicate ?sz zeroDense, replicate ?sz zeroDense, h) = Inr s' \<and> I ?sz s'"
  proof (rule forM_upt_total)
    show "I 0 (replicate ?sz zeroDense, replicate ?sz zeroDense, h)" by (simp add: I_def)
    show "0 \<le> ?sz" by simp
  next
    fix i s
    assume i: "i < ?sz" and Ii: "I i s"
    obtain nB nW hk where s: "s = (nB, nW, hk)" by (cases s)
    from Ii have m: "mods {} h hk" and lh: "length hk = length h + 2 * i"
      and len: "length nB = ?sz" "length nW = ?sz"
      and G: "\<And>j. j < i \<Longrightarrow> okd hk (nB ! j) \<and> Rows (nB ! j) = 1 \<and> Cols (nB ! j) = szs ! (j + 1)
        \<and> okd hk (nW ! j) \<and> Rows (nW ! j) = szs ! j \<and> Cols (nW ! j) = szs ! (j + 1)
        \<and> addr (nW ! j) = {length h + 2 * j}"
      by (simp_all add: I_def s)
    have wfk: "wf_net hk n szs" using wf m by (rule wf_net_mods)
    note d = wf_netD[OF wfk i]
    let ?h' = "hk @ [el (val hk (Weights n ! i)), el (val hk (Biases n ! i))]"
    from bp_clone_total[OF wfk i, of nB nW]
    obtain w b where r: "bp_clone n i (nB, nW, hk) = Inr (nB[i := b], nW[i := w], ?h')"
      and w: "w = hdr (szs ! i) (szs ! (i + 1)) (Slice (length hk) (szs ! i * szs ! (i + 1)))"
      and b: "b = hdr 1 (szs ! (i + 1)) (Slice (length hk + 1) (szs ! (i + 1)))"
      by blast
    have okw: "okd ?h' w" using d by (simp add: w okd_hdr_iff nth_append)
    have okb: "okd ?h' b" using d by (simp add: b okd_hdr_iff nth_append)
    have mk: "mods {} hk ?h'" by simp
    have m': "mods {} h ?h'" using mods_trans[OF m mk] by simp
    have G': "okd ?h' (nB[i := b] ! j) \<and> Rows (nB[i := b] ! j) = 1
        \<and> Cols (nB[i := b] ! j) = szs ! (j + 1)
        \<and> okd ?h' (nW[i := w] ! j) \<and> Rows (nW[i := w] ! j) = szs ! j
        \<and> Cols (nW[i := w] ! j) = szs ! (j + 1)
        \<and> addr (nW[i := w] ! j) = {length h + 2 * j}" if "j < Suc i" for j
    proof (cases "j = i")
      case True
      then show ?thesis using okw okb len i lh by (simp add: w b)
    next
      case False
      then have j: "j < i" using that by simp
      have "okd ?h' (nB ! j)" "okd ?h' (nW ! j)"
        using G[OF j] okd_mods[OF _ mk] by blast+
      then show ?thesis using G[OF j] False by simp
    qed
    show "\<exists>s'. bp_clone n i s = Inr s' \<and> I (Suc i) s'"
      unfolding s using r m' len G' lh by (simp add: I_def)
  qed
  then show ?thesis by (auto simp: I_def wf_grads_def)
qed

subsection \<open>The output layer\<close>

lemma bp_output_total:
  assumes sz: "0 < sz"
    and y: "okd h (data ! 1)" "Rows (data ! 1) = 1" "Cols (data ! 1) = c"
    and aL: "okd h (acts ! sz)" "Rows (acts ! sz) = 1" "Cols (acts ! sz) = c"
    and aP: "okd h (acts ! (sz - 1))" "Rows (acts ! (sz - 1)) = 1" "Cols (acts ! (sz - 1)) = r"
    and zL: "okd h (zs ! (sz - 1))" "Rows (zs ! (sz - 1)) = 1" "Cols (zs ! (sz - 1)) = c"
    and wL: "okd h (nW ! (sz - 1))" "Rows (nW ! (sz - 1)) = r" "Cols (nW ! (sz - 1)) = c"
  shows "\<exists>delta b w h'. bp_output data sz acts zs (nB, nW, h)
       = Inr (delta, nB[sz - 1 := b], nW[sz - 1 := w], h')
     \<and> mods (addr (nW ! (sz - 1))) h h'
     \<and> okd h' delta \<and> okd h' b \<and> okd h' w
     \<and> val h' delta = mhad (msub (val h (acts ! sz)) (val h (data ! 1)))
                           (mapply sigmoidPrimeMatrix (val h (zs ! (sz - 1))))
     \<and> val h' b = val h' delta
     \<and> val h' w = mmul (mtrans (val h (acts ! (sz - 1)))) (val h' delta)
     \<and> addr delta \<subseteq> {a. length h \<le> a} \<and> addr b \<subseteq> {a. length h \<le> a}
     \<and> addr w \<subseteq> addr (nW ! (sz - 1)) \<union> {a. length h \<le> a}
     \<and> addr delta \<inter> addr b = {} \<and> addr delta \<inter> addr w = {} \<and> addr b \<inter> addr w = {}
     \<and> addr b \<noteq> {}"
proof -
  let ?D = "mhad (msub (val h (acts ! sz)) (val h (data ! 1)))
                 (mapply sigmoidPrimeMatrix (val h (zs ! (sz - 1))))"
  \<comment> \<open>the error\<close>
  have "\<exists>m' h'. Sub zeroDense (M (acts ! sz)) (M (data ! 1)) h = Inr (m', h')"
    using y aL by (intro Sub_total[OF okd_zeroDense]) simp_all
  then obtain err h1 where r1: "quadraticCost (acts ! sz) (data ! 1) h = Inr (err, h1)"
    by (auto simp: quadraticCost_def)
  note f1 = wrote_fresh[OF Sub_wrote[OF okd_zeroDense r1[unfolded quadraticCost_def]]]
  \<comment> \<open>the derivative of the sigmoid\<close>
  have "\<exists>m' h'. Apply sigmoidPrimeMatrix zeroDense (M (zs ! (sz - 1))) h1 = Inr (m', h')"
    by (intro Apply_total[OF okd_zeroDense]) simp
  then obtain tmp h2 where r2: "Apply sigmoidPrimeMatrix zeroDense (M (zs ! (sz - 1))) h1 = Inr (tmp, h2)"
    by blast
  note f2 = wrote_fresh[OF Apply_wrote[OF okd_zeroDense r2]]
  have zv: "val h1 (zs ! (sz - 1)) = val h (zs ! (sz - 1))" using val_mods[OF zL(1) f1(1)] by simp
  have ev: "okd h2 err" "val h2 err = val h1 err"
    using okd_mods[OF f1(3) f2(1)] val_mods[OF f1(3) f2(1)] by simp_all
  \<comment> \<open>delta\<close>
  have "\<exists>m' h'. MulElem zeroDense (M err) (M tmp) h2 = Inr (m', h')"
    using f1(5,6) f2(5,6) y aL zL by (intro MulElem_total[OF okd_zeroDense]) simp_all
  then obtain delta h3 where r3: "MulElem zeroDense (M err) (M tmp) h2 = Inr (delta, h3)" by blast
  note f3 = wrote_fresh[OF MulElem_wrote[OF okd_zeroDense r3]]
  have dv: "val h3 delta = ?D" using f3(4) ev(2) f1(4) f2(4) zv by simp
  have dd: "Rows delta = 1" "Cols delta = c" using f3(5,6) f1(5,6) aL by simp_all
  \<comment> \<open>the bias gradient\<close>
  obtain b h4 where r4: "Clone (M delta) h3 = Inr (b, h4)" using Clone_total by blast
  note c4 = Clone_wrote[OF r4]
  note f4 = wrote_fresh[OF c4(1)]
  have m04: "mods {} h h4"
    using mods_trans[OF mods_trans[OF mods_trans[OF f1(1) f2(1)] f3(1)] f4(1)] by simp
  have d4: "okd h4 delta" "val h4 delta = ?D"
    using okd_mods[OF f3(3) f4(1)] val_mods[OF f3(3) f4(1)] dv by simp_all
  have b4: "val h4 b = ?D" using f4(4) dv by simp
  \<comment> \<open>the weight gradient\<close>
  have w4: "okd h4 (nW ! (sz - 1))" using wL(1) m04 by (rule okd_mods)
  have a4: "val h4 (acts ! (sz - 1)) = val h (acts ! (sz - 1))" using val_mods[OF aP(1) m04] by simp
  have "\<exists>m' h'. Mul (nW ! (sz - 1)) (T (acts ! (sz - 1))) (M delta) h4 = Inr (m', h')"
    using aP wL dd by (intro Mul_total[OF w4]) simp_all
  then obtain w h5 where r5: "Mul (nW ! (sz - 1)) (T (acts ! (sz - 1))) (M delta) h4 = Inr (w, h5)"
    by blast
  note w5 = Mul_wrote[OF w4 r5]
  note f5 = wroteD[OF w5]
  have lens: "length h \<le> length h1" "length h1 \<le> length h2" "length h2 \<le> length h3"
    "length h4 = Suc (length h3)"
    using mods_length[OF f1(1)] mods_length[OF f2(1)] mods_length[OF f3(1)] by (simp_all add: c4(3))
  have aw: "addr w \<subseteq> addr (nW ! (sz - 1)) \<union> {length h4}" by (rule f5(6))
  have wlt: "a < length h" if "a \<in> addr (nW ! (sz - 1))" for a using addr_lt[OF wL(1) that] .
  have ab: "addr b = {length h3}" by (rule c4(2))
  have ad: "addr delta \<subseteq> {length h2}" by (rule f3(2))
  have n2: "length h2 \<notin> addr w"
  proof
    assume "length h2 \<in> addr w"
    with aw have "length h2 \<in> addr (nW ! (sz - 1)) \<or> length h2 = length h4" by auto
    with wlt[of "length h2"] lens show False by auto
  qed
  have n3: "length h3 \<notin> addr w"
  proof
    assume "length h3 \<in> addr w"
    with aw have "length h3 \<in> addr (nW ! (sz - 1)) \<or> length h3 = length h4" by auto
    with wlt[of "length h3"] lens show False by auto
  qed
  have n23: "length h3 \<notin> addr delta"
  proof
    assume "length h3 \<in> addr delta"
    with ad have "length h3 = length h2" by auto
    moreover have "length h2 < length h3"
    proof -
      have "addr delta = {length h2} \<or> addr delta = {}" using ad by auto
      then show ?thesis
      proof
        assume "addr delta = {length h2}"
        with addr_lt[OF f3(3), of "length h2"] show ?thesis by simp
      next
        assume "addr delta = {}"
        with \<open>length h3 \<in> addr delta\<close> show ?thesis by simp
      qed
    qed
    ultimately show False by simp
  qed
  have dis: "addr delta \<inter> addr w = {}" "addr b \<inter> addr w = {}" "addr delta \<inter> addr b = {}"
  proof -
    show "addr delta \<inter> addr w = {}" using ad n2 by auto
    show "addr b \<inter> addr w = {}" using ab n3 by simp
    show "addr delta \<inter> addr b = {}" using ab n23 by simp
  qed
  have d5: "okd h5 delta" "val h5 delta = ?D"
    using okd_mods[OF d4(1) f5(5)] val_mods[OF d4(1) f5(5) dis(1)] d4(2) by simp_all
  have b5: "okd h5 b" "val h5 b = ?D"
    using okd_mods[OF f4(3) f5(5)] val_mods[OF f4(3) f5(5) dis(2)] b4 by simp_all
  have wv: "val h5 w = mmul (mtrans (val h (acts ! (sz - 1)))) ?D"
    using f5(2) a4 d4(2) by simp
  have m5: "mods (addr (nW ! (sz - 1))) h h5"
    using mods_trans[OF m04 wrote_mods[OF w5]] by simp
  have run: "bp_output data sz acts zs (nB, nW, h) = Inr (delta, nB[sz - 1 := b], nW[sz - 1 := w], h5)"
    using r1 r2 r3 r4 r5 sz by (simp add: bp_output_def)
  have sub: "addr delta \<subseteq> {a. length h \<le> a}" "addr b \<subseteq> {a. length h \<le> a}"
    "addr w \<subseteq> addr (nW ! (sz - 1)) \<union> {a. length h \<le> a}"
    using ad ab aw lens by auto
  show ?thesis
    by (rule exI[of _ delta], rule exI[of _ b], rule exI[of _ w], rule exI[of _ h5])
       (use run m5 d5 b5 f5(1) wv sub dis ab in simp)
qed

subsection \<open>The backward loop\<close>

lemma bp_backward_total:
  assumes wf: "wf_net h n szs" and i: "i + 1 < length szs - 1"
    and z: "okd h (zs ! i)" "Rows (zs ! i) = 1" "Cols (zs ! i) = szs ! (i + 1)"
    and a: "okd h (acts ! i)" "Rows (acts ! i) = 1" "Cols (acts ! i) = szs ! i"
    and d: "okd h delta" "Rows delta = 1" "Cols delta = szs ! (i + 2)"
    and w: "okd h (nW ! i)" "Rows (nW ! i) = szs ! i" "Cols (nW ! i) = szs ! (i + 1)"
  shows "\<exists>delta' w' h'. bp_backward n acts zs i (delta, nB, nW, h)
       = Inr (delta', nB[i := delta'], nW[i := w'], h')
     \<and> mods (addr delta \<union> addr (nW ! i)) h h'
     \<and> okd h' delta' \<and> Rows delta' = 1 \<and> Cols delta' = szs ! (i + 1)
     \<and> okd h' w' \<and> Rows w' = szs ! i \<and> Cols w' = szs ! (i + 1)
     \<and> addr delta' \<subseteq> addr delta \<union> {a. length h \<le> a}
     \<and> addr w' \<subseteq> addr (nW ! i) \<union> {a. length h \<le> a}"
proof -
  have i1: "i + 1 < length szs - 1" by (rule i)
  note p = wf_netD[OF wf i1]
  \<comment> \<open>sp\<close>
  have "\<exists>m' h'. Apply sigmoidPrimeMatrix zeroDense (M (zs ! i)) h = Inr (m', h')"
    by (intro Apply_total[OF okd_zeroDense]) simp
  then obtain sp h1 where r1: "Apply sigmoidPrimeMatrix zeroDense (M (zs ! i)) h = Inr (sp, h1)"
    by blast
  note f1 = wrote_fresh[OF Apply_wrote[OF okd_zeroDense r1]]
  have sd: "Rows sp = 1" "Cols sp = szs ! (i + 1)" using f1(5,6) z by simp_all
  \<comment> \<open>tmp\<close>
  have "\<exists>m' h'. Mul zeroDense (M delta) (T (Weights n ! (i + 1))) h1 = Inr (m', h')"
    using d p by (intro Mul_total[OF okd_zeroDense]) simp_all
  then obtain tmp h2 where r2: "Mul zeroDense (M delta) (T (Weights n ! (i + 1))) h1 = Inr (tmp, h2)"
    by blast
  note f2 = wrote_fresh[OF Mul_wrote[OF okd_zeroDense r2]]
  have td: "Rows tmp = 1" "Cols tmp = szs ! (i + 1)" using f2(5,6) d p by simp_all
  have m02: "mods {} h h2" using mods_trans[OF f1(1) f2(1)] by simp
  \<comment> \<open>delta\<close>
  have d2: "okd h2 (Reset delta)" using okd_Reset[OF okd_mods[OF d(1) m02]] .
  have "\<exists>m' h'. MulElem (Reset delta) (M tmp) (M sp) h2 = Inr (m', h')"
    using td sd by (intro MulElem_total[OF d2]) simp_all
  then obtain delta' h3 where r3: "MulElem (Reset delta) (M tmp) (M sp) h2 = Inr (delta', h3)"
    by blast
  note w3 = MulElem_wrote[OF d2 r3]
  note f3 = wroteD[OF w3]
  have dd: "Rows delta' = 1" "Cols delta' = szs ! (i + 1)" using f3(3,4) td by simp_all
  have m23: "mods (addr delta) h2 h3" using wrote_mods[OF w3] by simp
  have m03: "mods (addr delta) h h3" using mods_trans[OF m02 m23] by simp
  \<comment> \<open>the weight gradient\<close>
  have w3': "okd h3 (nW ! i)" using w(1) m03 by (rule okd_mods)
  have "\<exists>m' h'. Mul (nW ! i) (T (acts ! i)) (M delta') h3 = Inr (m', h')"
    using a w dd by (intro Mul_total[OF w3']) simp_all
  then obtain w' h4 where r4: "Mul (nW ! i) (T (acts ! i)) (M delta') h3 = Inr (w', h4)" by blast
  note w4 = Mul_wrote[OF w3' r4]
  note f4 = wroteD[OF w4]
  have wd: "Rows w' = szs ! i" "Cols w' = szs ! (i + 1)" using f4(3,4) a dd by simp_all
  have m04: "mods (addr delta \<union> addr (nW ! i)) h h4"
    using mods_trans[OF m03 wrote_mods[OF w4]] .
  have okd4: "okd h4 delta'" using f3(1) f4(5) by (rule okd_mods)
  have lens: "length h \<le> length h2" "length h \<le> length h3"
    using mods_length[OF m02] mods_length[OF m03] by simp_all
  have ad: "addr delta' \<subseteq> addr delta \<union> {a. length h \<le> a}" using f3(6) lens by auto
  have aw: "addr w' \<subseteq> addr (nW ! i) \<union> {a. length h \<le> a}" using f4(6) lens by auto
  have run: "bp_backward n acts zs i (delta, nB, nW, h) = Inr (delta', nB[i := delta'], nW[i := w'], h4)"
    using r1 r2 r3 r4 p(7) by (simp add: bp_backward_def)
  show ?thesis
    by (rule exI[of _ delta'], rule exI[of _ w'], rule exI[of _ h4])
       (use run m04 okd4 dd f4(1) wd ad aw in simp)
qed

lemma wf_gradsD:
  assumes "wf_grads h szs nB nW" and "i < length szs - 1"
  shows "okd h (nB ! i)" "Rows (nB ! i) = 1" "Cols (nB ! i) = szs ! Suc i"
    "okd h (nW ! i)" "Rows (nW ! i) = szs ! i" "Cols (nW ! i) = szs ! Suc i"
    "length nB = length szs - 1" "length nW = length szs - 1"
  using assms by (simp_all add: wf_grads_def)

lemma wf_grads_update:
  assumes g: "wf_grads h szs nB nW" and m: "mods S h h'" and i: "i < length szs - 1"
    and b: "okd h' b" "Rows b = 1" "Cols b = szs ! Suc i"
    and w: "okd h' w" "Rows w = szs ! i" "Cols w = szs ! Suc i"
  shows "wf_grads h' szs (nB[i := b]) (nW[i := w])"
proof -
  note g' = wf_grads_mods[OF g m]
  have "okd h' (nB[i := b] ! j) \<and> Rows (nB[i := b] ! j) = 1 \<and> Cols (nB[i := b] ! j) = szs ! (j + 1)
      \<and> okd h' (nW[i := w] ! j) \<and> Rows (nW[i := w] ! j) = szs ! j
      \<and> Cols (nW[i := w] ! j) = szs ! (j + 1)" if j: "j < length szs - 1" for j
  proof (cases "j = i")
    case True
    then show ?thesis using b w wf_gradsD(7,8)[OF g i] i by simp
  next
    case False
    then show ?thesis using wf_gradsD[OF g' j] by simp
  qed
  then show ?thesis using wf_gradsD(7,8)[OF g i] by (simp add: wf_grads_def)
qed

lemma bp_backward_loop:
  assumes wf: "wf_net h n szs"
    and acts: "\<And>i. i < length szs \<Longrightarrow> okd h (acts ! i) \<and> Rows (acts ! i) = 1 \<and> Cols (acts ! i) = szs ! i"
    and zs: "\<And>i. i < length szs - 1 \<Longrightarrow> okd h (zs ! i) \<and> Rows (zs ! i) = 1 \<and> Cols (zs ! i) = szs ! Suc i"
    and d: "okd h delta" "Rows delta = 1" "Cols delta = szs ! (length szs - 1)"
    and g: "wf_grads h szs nB nW"
    and P: "P \<subseteq> {..<length h}" and dP: "addr delta \<inter> P = {}"
    and wP: "\<And>i. i < length szs - 2 \<Longrightarrow> addr (nW ! i) \<inter> P = {}"
  shows "\<exists>delta' nB' nW' h'. forM (rev [0..<length szs - 1 - 1]) (bp_backward n acts zs)
        (delta, nB, nW, h) = Inr (delta', nB', nW', h')
     \<and> mods (- P) h h' \<and> wf_grads h' szs nB' nW'
     \<and> nB' ! (length szs - 2) = nB ! (length szs - 2)
     \<and> nW' ! (length szs - 2) = nW ! (length szs - 2)"
proof -
  let ?sz = "length szs - 1"
  have L: "2 \<le> length szs" using wf by (simp add: wf_net_def)
  define I where "I = (\<lambda>k (dl, nB', nW', hk).
     mods (- P) h hk \<and> okd hk dl \<and> Rows dl = 1 \<and> Cols dl = szs ! Suc k \<and> addr dl \<inter> P = {}
     \<and> wf_grads hk szs nB' nW' \<and> (\<forall>i<length szs - 2. addr (nW' ! i) \<inter> P = {})
     \<and> nB' ! (length szs - 2) = nB ! (length szs - 2)
     \<and> nW' ! (length szs - 2) = nW ! (length szs - 2))"
  have "\<exists>s'. forM (rev [0..<?sz - 1]) (bp_backward n acts zs) (delta, nB, nW, h) = Inr s' \<and> I 0 s'"
  proof (rule forM_down_total)
    have "Suc (?sz - 1) = length szs - 1" using L by simp
    then show "I (?sz - 1) (delta, nB, nW, h)"
      using d g dP wP by (simp add: I_def del: One_nat_def)
  next
    fix i s
    assume i: "i < ?sz - 1" and Ii: "I (Suc i) s"
    obtain dl nB' nW' hk where s: "s = (dl, nB', nW', hk)" by (cases s)
    from Ii have m: "mods (- P) h hk" and dl: "okd hk dl" "Rows dl = 1" "Cols dl = szs ! (i + 2)"
      and dlP: "addr dl \<inter> P = {}" and gk: "wf_grads hk szs nB' nW'"
      and wPk: "\<And>j. j < length szs - 2 \<Longrightarrow> addr (nW' ! j) \<inter> P = {}"
      and keep: "nB' ! (length szs - 2) = nB ! (length szs - 2)"
        "nW' ! (length szs - 2) = nW ! (length szs - 2)"
      by (simp_all add: I_def s)
    have i1: "i + 1 < ?sz" and i0: "i < ?sz" and il: "i < length szs" and i2: "i < length szs - 2"
      using i by simp_all
    have wfk: "wf_net hk n szs" using wf m by (rule wf_net_mods)
    have zk: "okd hk (zs ! i)" "Rows (zs ! i) = 1" "Cols (zs ! i) = szs ! (i + 1)"
      using zs[OF i0] okd_mods[OF _ m] by simp_all
    have ak: "okd hk (acts ! i)" "Rows (acts ! i) = 1" "Cols (acts ! i) = szs ! i"
      using acts[OF il] okd_mods[OF _ m] by simp_all
    have wk: "okd hk (nW' ! i)" "Rows (nW' ! i) = szs ! i" "Cols (nW' ! i) = szs ! (i + 1)"
      using wf_gradsD(4,5,6)[OF gk i0] by simp_all
    from bp_backward_total[OF wfk i1 zk ak dl wk, of nB']
    obtain delta' w' h' where
      r: "bp_backward n acts zs i (dl, nB', nW', hk) = Inr (delta', nB'[i := delta'], nW'[i := w'], h')"
      and f: "mods (addr dl \<union> addr (nW' ! i)) hk h'"
        "okd h' delta'" "Rows delta' = 1" "Cols delta' = szs ! (i + 1)"
        "okd h' w'" "Rows w' = szs ! i" "Cols w' = szs ! (i + 1)"
        "addr delta' \<subseteq> addr dl \<union> {a. length hk \<le> a}"
        "addr w' \<subseteq> addr (nW' ! i) \<union> {a. length hk \<le> a}"
      by blast
    have sub: "addr dl \<union> addr (nW' ! i) \<subseteq> - P" using dlP wPk[OF i2] by auto
    have m': "mods (- P) h h'" using mods_trans[OF m mods_mono[OF f(1) sub]] by simp
    have Plt: "a < length hk" if "a \<in> P" for a using P that mods_length[OF m] by auto
    have dP': "addr delta' \<inter> P = {}"
    proof (rule ccontr)
      assume "addr delta' \<inter> P \<noteq> {}"
      then obtain a where a: "a \<in> addr delta'" "a \<in> P" by auto
      with f(8) have "a \<in> addr dl \<or> length hk \<le> a" by auto
      with dlP a(2) Plt[OF a(2)] show False by auto
    qed
    have wP': "addr (nW'[i := w'] ! j) \<inter> P = {}" if j: "j < length szs - 2" for j
    proof (cases "j = i")
      case True
      have "addr w' \<inter> P = {}"
      proof (rule ccontr)
        assume "addr w' \<inter> P \<noteq> {}"
        then obtain a where a: "a \<in> addr w'" "a \<in> P" by auto
        with f(9) have "a \<in> addr (nW' ! i) \<or> length hk \<le> a" by auto
        with wPk[OF i2] a(2) Plt[OF a(2)] show False by auto
      qed
      then show ?thesis using True wf_gradsD(8)[OF gk i0] i0 by simp
    next
      case False
      then show ?thesis using wPk[OF j] by simp
    qed
    have g': "wf_grads h' szs (nB'[i := delta']) (nW'[i := w'])"
      using f(2,3,4,5,6,7) by (intro wf_grads_update[OF gk f(1) i0]) simp_all
    have ne: "i \<noteq> length szs - 2" using i by simp
    show "\<exists>s'. bp_backward n acts zs i s = Inr s' \<and> I i s'"
      unfolding s using r m' f(2,3,4) dP' g' wP' keep ne by (simp add: I_def)
  qed
  then show ?thesis by (auto simp: I_def)
qed

subsection \<open>Backpropagation on a well-formed network and example\<close>

lemma params_mods:
  assumes wf: "wf_net h n szs" and m: "mods {} h h'"
  shows "params h' n = params h n"
proof -
  have "val h' (Weights n ! i) = val h (Weights n ! i)" if "i < length (Weights n)" for i
    using val_mods[OF wf_netD(1)[OF wf] m, of i] that wf by (simp add: wf_net_def)
  then have W: "map (val h') (Weights n) = map (val h) (Weights n)"
    by (intro nth_equalityI) simp_all
  have "val h' (Biases n ! i) = val h (Biases n ! i)" if "i < length (Biases n)" for i
    using val_mods[OF wf_netD(4)[OF wf] m, of i] that wf by (simp add: wf_net_def)
  then have B: "map (val h') (Biases n) = map (val h) (Biases n)"
    by (intro nth_equalityI) simp_all
  show ?thesis by (simp add: params_def W B)
qed

lemma backprop_total:
  assumes wf: "wf_net h n szs"
    and x: "okd h x" "Rows x = 1" "Cols x = szs ! 0"
    and y: "okd h y" "Rows y = 1" "Cols y = szs ! (length szs - 1)"
  shows "\<exists>nB nW h'. backpropQuadCost n [x, y] eta h = Inr ((nB, nW), h')
     \<and> mods {} h h' \<and> wf_grads h' szs nB nW
     \<and> val h' (nB ! (length szs - 2))
         = mhad (msub (act_at (params h n) (val h x) (length szs - 1)) (val h y))
                (mapply sigmoidPrimeMatrix (z_at (params h n) (val h x) (length szs - 2)))
     \<and> val h' (nW ! (length szs - 2))
         = mmul (mtrans (act_at (params h n) (val h x) (length szs - 2)))
                (val h' (nB ! (length szs - 2)))"
proof -
  let ?ps = "params h n"
  let ?X = "val h x"
  have "2 \<le> length szs" using wf by (simp add: wf_net_def)
  then obtain k where K: "length szs = Suc (Suc k)"
    by (metis Suc_le_D numeral_2_eq_2 Suc_le_mono)
  have Ks: "length szs - 1 = Suc k" "length szs - 2 = k" by (simp_all add: K)
  let ?D = "mhad (msub (act_at ?ps ?X (Suc k)) (val h y))
                 (mapply sigmoidPrimeMatrix (z_at ?ps ?X k))"
  have NL: "nat (NumLayers n - 1) = Suc k" "\<not> NumLayers n - 1 < 0"
    using wf by (auto simp: wf_net_def K)
  have lt: "k < Suc k" "Suc k < length szs" "k < length szs" "k < length szs - 1"
    "0 < Suc k" by (simp_all add: K)
  \<comment> \<open>the input\<close>
  obtain a0 h1 where r1: "Clone (M x) h = Inr (a0, h1)" using Clone_total by blast
  note c1 = Clone_wrote[OF r1]
  note f1 = wrote_fresh[OF c1(1)]
  have a0: "okd h1 a0" "Rows a0 = 1" "Cols a0 = szs ! 0" "val h1 a0 = ?X"
    using f1 x by simp_all
  have wf1: "wf_net h1 n szs" using wf f1(1) by (rule wf_net_mods)
  have ps1: "params h1 n = ?ps" using wf f1(1) by (rule params_mods)
  \<comment> \<open>the forward loop\<close>
  from bp_forward_loop[OF wf1 a0(1,2,3)] obtain acts zs h2 where
    r2: "forM [0..<length szs - 1] (bp_forward n)
          ((replicate (length szs - 1 + 1) zeroDense)[0 := a0],
           replicate (length szs - 1) zeroDense, h1)
         = Inr (acts, zs, h2)"
    and m12: "mods {} h1 h2"
    and A: "\<And>i. i < length szs \<Longrightarrow> okd h2 (acts ! i) \<and> val h2 (acts ! i) = act_at ?ps ?X i"
    and Z: "\<And>i. i < length szs - 1 \<Longrightarrow> okd h2 (zs ! i) \<and> val h2 (zs ! i) = z_at ?ps ?X i"
    unfolding ps1 a0(4) by blast
  have xc: "nc ?X = szs ! 0" "nr ?X = 1" using x by simp_all
  have Ad: "Rows (acts ! i) = 1 \<and> Cols (acts ! i) = szs ! i" if i: "i < length szs" for i
  proof -
    have "nr (val h2 (acts ! i)) = 1" "nc (val h2 (acts ! i)) = szs ! i"
      using A[OF i] act_at_nr[of ?ps ?X i] act_at_nc[OF wf i xc(1)] xc(2) by simp_all
    then show ?thesis by simp
  qed
  have Zd: "Rows (zs ! i) = 1 \<and> Cols (zs ! i) = szs ! Suc i" if i: "i < length szs - 1" for i
  proof -
    have "nr (val h2 (zs ! i)) = 1" "nc (val h2 (zs ! i)) = szs ! Suc i"
      using Z[OF i] z_at_dims[OF wf i, of ?X] act_at_nr[of ?ps ?X i] xc(2) by simp_all
    then show ?thesis by simp
  qed
  have m02: "mods {} h h2" using mods_trans[OF f1(1) m12] by simp
  have wf2: "wf_net h2 n szs" using wf m02 by (rule wf_net_mods)
  \<comment> \<open>the clone loop\<close>
  from bp_clone_loop[OF wf2] obtain nB1 nW1 h3 where
    r3: "forM [0..<length szs - 1] (bp_clone n)
          (replicate (length szs - 1) zeroDense, replicate (length szs - 1) zeroDense, h2)
         = Inr (nB1, nW1, h3)"
    and m23: "mods {} h2 h3" and l3: "length h3 = length h2 + 2 * (length szs - 1)"
    and g3: "wf_grads h3 szs nB1 nW1"
    and aW: "\<And>i. i < length szs - 1 \<Longrightarrow> addr (nW1 ! i) = {length h2 + 2 * i}"
    by blast
  have m03: "mods {} h h3" using mods_trans[OF m02 m23] by simp
  \<comment> \<open>the output layer\<close>
  have y3: "okd h3 ([x, y] ! 1)" "Rows ([x, y] ! 1) = 1" "Cols ([x, y] ! 1) = szs ! Suc k"
    using okd_mods[OF y(1) m03] y by (simp_all add: K)
  have aL: "okd h3 (acts ! Suc k)" "Rows (acts ! Suc k) = 1" "Cols (acts ! Suc k) = szs ! Suc k"
    using okd_mods[OF _ m23] A[OF lt(2)] Ad[OF lt(2)] by blast+
  have aP: "okd h3 (acts ! (Suc k - 1))" "Rows (acts ! (Suc k - 1)) = 1"
    "Cols (acts ! (Suc k - 1)) = szs ! k"
    using okd_mods[OF _ m23] A[OF lt(3)] Ad[OF lt(3)] by simp_all
  have zL: "okd h3 (zs ! (Suc k - 1))" "Rows (zs ! (Suc k - 1)) = 1"
    "Cols (zs ! (Suc k - 1)) = szs ! Suc k"
    using okd_mods[OF _ m23] Z[OF lt(4)] Zd[OF lt(4)] by simp_all
  have wL: "okd h3 (nW1 ! (Suc k - 1))" "Rows (nW1 ! (Suc k - 1)) = szs ! k"
    "Cols (nW1 ! (Suc k - 1)) = szs ! Suc k"
    using wf_gradsD(4,5,6)[OF g3 lt(4)] by simp_all
  from bp_output_total[OF lt(5) y3 aL aP zL wL, of nB1]
  obtain delta b w h4 where
    r4: "bp_output [x, y] (Suc k) acts zs (nB1, nW1, h3)
         = Inr (delta, nB1[Suc k - 1 := b], nW1[Suc k - 1 := w], h4)"
    and m34: "mods (addr (nW1 ! (Suc k - 1))) h3 h4"
    and ok4: "okd h4 delta" "okd h4 b" "okd h4 w"
    and vd: "val h4 delta = mhad (msub (val h3 (acts ! Suc k)) (val h3 ([x, y] ! 1)))
                           (mapply sigmoidPrimeMatrix (val h3 (zs ! (Suc k - 1))))"
    and vb: "val h4 b = val h4 delta"
    and vw: "val h4 w = mmul (mtrans (val h3 (acts ! (Suc k - 1)))) (val h4 delta)"
    and ad: "addr delta \<subseteq> {a. length h3 \<le> a}" "addr b \<subseteq> {a. length h3 \<le> a}"
      "addr w \<subseteq> addr (nW1 ! (Suc k - 1)) \<union> {a. length h3 \<le> a}"
    and dis: "addr delta \<inter> addr b = {}" "addr delta \<inter> addr w = {}" "addr b \<inter> addr w = {}"
    by blast
  have v3: "val h3 (acts ! Suc k) = act_at ?ps ?X (Suc k)"
    "val h3 (acts ! k) = act_at ?ps ?X k"
    "val h3 (zs ! k) = z_at ?ps ?X k"
    "val h3 ([x, y] ! 1) = val h y"
    using val_mods[OF _ m23, of "acts ! Suc k"] A[OF lt(2)]
      val_mods[OF _ m23, of "acts ! k"] A[OF lt(3)]
      val_mods[OF _ m23, of "zs ! k"] Z[OF lt(4)]
      val_mods[OF y(1) m03]
    by simp_all
  have vd': "val h4 delta = ?D" using vd v3 by simp
  have vw': "val h4 w = mmul (mtrans (act_at ?ps ?X k)) ?D" using vw v3 vd' by simp
  \<comment> \<open>the backward loop\<close>
  let ?P = "addr b \<union> addr w"
  let ?nB = "nB1[k := b]"
  let ?nW = "nW1[k := w]"
  have m34': "mods (addr (nW1 ! k)) h3 h4" using m34 by simp
  have wf4: "wf_net h4 n szs" using wf_net_mods[OF wf2 m23] m34 by (rule wf_net_mods)
  have acts4: "okd h4 (acts ! i) \<and> Rows (acts ! i) = 1 \<and> Cols (acts ! i) = szs ! i"
    if i: "i < length szs" for i
    using okd_mods[OF okd_mods[OF _ m23] m34] A[OF i] Ad[OF i] by simp
  have zs4: "okd h4 (zs ! i) \<and> Rows (zs ! i) = 1 \<and> Cols (zs ! i) = szs ! Suc i"
    if i: "i < length szs - 1" for i
    using okd_mods[OF okd_mods[OF _ m23] m34] Z[OF i] Zd[OF i] by simp
  have dd: "Rows delta = 1" "Cols delta = szs ! (length szs - 1)"
  proof -
    have "nr (val h4 delta) = 1" "nc (val h4 delta) = szs ! Suc k"
      unfolding vd using aL by simp_all
    then show "Rows delta = 1" "Cols delta = szs ! (length szs - 1)" by (simp_all add: K)
  qed
  have bd: "Rows b = 1" "Cols b = szs ! Suc k"
  proof -
    have "nr (val h4 b) = 1" "nc (val h4 b) = szs ! Suc k" unfolding vb using dd by (simp_all add: K)
    then show "Rows b = 1" "Cols b = szs ! Suc k" by simp_all
  qed
  have wd: "Rows w = szs ! k" "Cols w = szs ! Suc k"
  proof -
    have "nr (val h4 w) = szs ! k" "nc (val h4 w) = szs ! Suc k"
      unfolding vw using dd aP by (simp_all add: K)
    then show "Rows w = szs ! k" "Cols w = szs ! Suc k" by simp_all
  qed
  have g4: "wf_grads h4 szs ?nB ?nW"
    using ok4 bd wd by (intro wf_grads_update[OF g3 m34' lt(4)]) simp_all
  have P4: "?P \<subseteq> {..<length h4}" using addr_lt[OF ok4(2)] addr_lt[OF ok4(3)] by auto
  have dP: "addr delta \<inter> ?P = {}" using dis by auto
  have wP: "addr (?nW ! i) \<inter> ?P = {}" if i: "i < length szs - 2" for i
  proof -
    have i': "i < length szs - 1" "i \<noteq> k" "i < k" using i by (simp_all add: K)
    have e: "addr (?nW ! i) = {length h2 + 2 * i}" using aW[OF i'(1)] i'(2) by simp
    have lt': "length h2 + 2 * i < length h3" using l3 i'(1) by simp
    have "length h2 + 2 * i \<notin> addr b" using ad(2) lt' by auto
    moreover have "length h2 + 2 * i \<notin> addr w"
    proof
      assume "length h2 + 2 * i \<in> addr w"
      with ad(3) lt' have "length h2 + 2 * i \<in> addr (nW1 ! k)" by auto
      with aW[OF lt(4)] i'(3) show False by simp
    qed
    ultimately show ?thesis by (simp add: e)
  qed
  from bp_backward_loop[OF wf4 acts4 zs4 ok4(1) dd g4 P4 dP wP]
  obtain delta' nB nW h' where
    r5: "forM (rev [0..<length szs - 1 - 1]) (bp_backward n acts zs) (delta, ?nB, ?nW, h4)
         = Inr (delta', nB, nW, h')"
    and m45: "mods (- ?P) h4 h'" and g5: "wf_grads h' szs nB nW"
    and keep: "nB ! (length szs - 2) = ?nB ! (length szs - 2)"
      "nW ! (length szs - 2) = ?nW ! (length szs - 2)"
    by blast
  have lens: "length nB1 = Suc k" "length nW1 = Suc k"
    using wf_gradsD(7,8)[OF g3 lt(4)] by (simp_all add: K)
  have keep': "nB ! k = b" "nW ! k = w"
    using keep lens by (simp_all add: K)
  have vb5: "val h' b = ?D"
    using val_mods[OF ok4(2) m45] vb vd' by simp
  have vw5: "val h' w = mmul (mtrans (act_at ?ps ?X k)) ?D"
    using val_mods[OF ok4(3) m45] vw' by simp
  \<comment> \<open>together\<close>
  have run: "backpropQuadCost n [x, y] eta h = Inr ((nB, nW), h')"
    using r1 r2 r3 r4 r5 NL by (simp add: backpropQuadCost_def K)
  note fr = backpropQuadCost_frame[OF run]
  show ?thesis
    by (rule exI[of _ nB], rule exI[of _ nW], rule exI[of _ h'])
       (use run fr(1) g5 keep' vb5 vw5 in \<open>simp add: K\<close>)
qed

subsection \<open>A three-layer network for the instances\<close>

lemma wf_net3: "wf_net h3 net3 [1, 2, 1]"
  by (simp add: wf_net_def net3_def h3_def okd_hdr_iff less_Suc_eq numeral_2_eq_2 all_conj_distrib)

lemma ex3_ok:
  "okd h3 (ex3 ! 0)" "Rows (ex3 ! 0) = 1" "Cols (ex3 ! 0) = [1, 2, 1] ! 0"
  "okd h3 (ex3 ! 1)" "Rows (ex3 ! 1) = 1" "Cols (ex3 ! 1) = [1, 2, 1] ! (length [1, 2, 1 :: nat] - 1)"
  "ex3 = [ex3 ! 0, ex3 ! 1]"
  by (simp_all add: ex3_def h3_def okd_hdr_iff)

subsection \<open>The claims about FeedForward and backpropagation\<close>

lemma quadraticCost_total:
  assumes "okd h out" and "okd h des" and "Rows out = Rows des" and "Cols out = Cols des"
  shows "\<exists>err h'. quadraticCost out des h = Inr (err, h') \<and> okd h' err
     \<and> val h' err = msub (val h out) (val h des)"
proof -
  have "\<exists>m' h'. Sub zeroDense (M out) (M des) h = Inr (m', h')"
    using assms by (intro Sub_total[OF okd_zeroDense]) simp_all
  then obtain err h' where r: "quadraticCost out des h = Inr (err, h')"
    by (auto simp: quadraticCost_def)
  note f = wrote_fresh[OF Sub_wrote[OF okd_zeroDense r[unfolded quadraticCost_def]]]
  show ?thesis using r f(3,4) by simp
qed

text \<open>
  Claim C5.  On a network whose weights and biases have the shapes of its layer sizes,
  and on an input row of width \<open>szs ! 0\<close>, FeedForward returns.  The value returned is
  the last of the activations \<open>act_at\<close>, where activation 0 is the input and activation
  \<open>i + 1\<close> is the sigmoid, entry by entry, of activation \<open>i\<close> times \<open>W[i]\<close> plus
  \<open>B[i]\<close>; it has one row and as many columns as the last layer.
\<close>

theorem FeedForward_correct:
  assumes "wf_net h n szs" and "okd h input" and "Rows input = 1" and "Cols input = szs ! 0"
  shows "\<exists>out h'. FeedForward n input h = Inr (out, h')
     \<and> val h' out = act_at (params h n) (val h input) (length szs - 1)
     \<and> act_at (params h n) (val h input) 0 = val h input
     \<and> (\<forall>i<length szs - 1. act_at (params h n) (val h input) (Suc i)
           = mapply sigmoidMatrix
               (madd (mmul (act_at (params h n) (val h input) i) (val h (Weights n ! i)))
                     (val h (Biases n ! i))))
     \<and> (\<forall>i j v. sigmoidMatrix i j v = 1 / (1 + exp (- v)))
     \<and> nr (val h' out) = 1 \<and> nc (val h' out) = szs ! (length szs - 1)"
proof -
  from FeedForward_total[OF assms] obtain out h' where
    r: "FeedForward n input h = Inr (out, h')"
    and v: "val h' out = act_at (params h n) (val h input) (length szs - 1)"
    by blast
  have L: "length szs - 1 < length szs" using assms(1) by (auto simp: wf_net_def)
  have xc: "nc (val h input) = szs ! 0" using assms(4) by simp
  have d: "nr (val h' out) = 1" "nc (val h' out) = szs ! (length szs - 1)"
    unfolding v using act_at_nr[of "params h n" "val h input"] act_at_nc[OF assms(1) L xc] assms(3)
    by simp_all
  have rec: "act_at (params h n) (val h input) (Suc i)
           = mapply sigmoidMatrix
               (madd (mmul (act_at (params h n) (val h input) i) (val h (Weights n ! i)))
                     (val h (Biases n ! i)))" if "i < length szs - 1" for i
    using params_nth[OF assms(1) that] by simp
  have d': "Rows out = 1" "Cols out = szs ! (length szs - 1)" using d by simp_all
  show ?thesis using r v d' rec by (simp add: sigmoidMatrix_def sigmoid_def)
qed

theorem FeedForward_correct_witness:
  "wf_net h3 net3 [1, 2, 1] \<and> okd h3 (ex3 ! 0)
   \<and> (\<exists>out h'. FeedForward net3 (ex3 ! 0) h3 = Inr (out, h') \<and> nr (val h' out) = 1
        \<and> nc (val h' out) = 1)"
  using FeedForward_correct[OF wf_net3 ex3_ok(1,2,3)] wf_net3 ex3_ok(1) by auto

text \<open>
  Claim C6.  The quadratic cost returns the difference \<open>output - desired\<close>, entry by
  entry: a matrix, not the scalar cost.  On a well-formed network and example
  backpropagation returns, and the bias gradient of the last layer, which is the copy of
  \<^verbatim>\<open>delta\<close> made at the output layer, is
  \<open>(activations[L-1] - desired) \<odot> sigmoid'(zs[L-2])\<close>, where \<open>sigmoid'(z)\<close> is
  \<open>sigmoid z * (1 - sigmoid z)\<close> at every entry.
\<close>

theorem output_error:
  assumes "wf_net h n szs"
    and "okd h x" and "Rows x = 1" and "Cols x = szs ! 0"
    and "okd h y" and "Rows y = 1" and "Cols y = szs ! (length szs - 1)"
  shows "(\<forall>out des. okd h out \<and> okd h des \<and> Rows out = Rows des \<and> Cols out = Cols des \<longrightarrow>
            (\<exists>err h'. quadraticCost out des h = Inr (err, h')
               \<and> val h' err = mk (Rows out) (Cols out)
                                 (\<lambda>i j. entry (val h out) i j - entry (val h des) i j)))
     \<and> (\<exists>nB nW h'. backpropQuadCost n [x, y] eta h = Inr ((nB, nW), h')
          \<and> val h' (nB ! (length szs - 2))
              = mhad (msub (act_at (params h n) (val h x) (length szs - 1)) (val h y))
                     (mapply sigmoidPrimeMatrix (z_at (params h n) (val h x) (length szs - 2))))
     \<and> (\<forall>i j v. sigmoidPrimeMatrix i j v = sigmoid v * (1 - sigmoid v))"
proof -
  have "\<exists>err h'. quadraticCost out des h = Inr (err, h')
      \<and> val h' err = mk (Rows out) (Cols out)
                       (\<lambda>i j. entry (val h out) i j - entry (val h des) i j)"
    if "okd h out \<and> okd h des \<and> Rows out = Rows des \<and> Cols out = Cols des" for out des
    using quadraticCost_total[of h out des] that by (auto simp: msub_def)
  moreover from backprop_total[OF assms, of eta]
  have "\<exists>nB nW h'. backpropQuadCost n [x, y] eta h = Inr ((nB, nW), h')
          \<and> val h' (nB ! (length szs - 2))
              = mhad (msub (act_at (params h n) (val h x) (length szs - 1)) (val h y))
                     (mapply sigmoidPrimeMatrix (z_at (params h n) (val h x) (length szs - 2)))"
    by blast
  ultimately show ?thesis by (simp add: sigmoidPrimeMatrix_def)
qed

theorem output_error_witness:
  "wf_net h3 net3 [1, 2, 1] \<and> okd h3 (ex3 ! 0) \<and> okd h3 (ex3 ! 1)
   \<and> (\<exists>nB nW h'. backpropQuadCost net3 [ex3 ! 0, ex3 ! 1] 1 h3 = Inr ((nB, nW), h')
        \<and> val h' (nB ! 1)
            = mhad (msub (act_at (params h3 net3) (val h3 (ex3 ! 0)) 2) (val h3 (ex3 ! 1)))
                   (mapply sigmoidPrimeMatrix (z_at (params h3 net3) (val h3 (ex3 ! 0)) 1)))"
  using output_error[OF wf_net3 ex3_ok(1,2,3,4,5,6), of 1] wf_net3 ex3_ok(1,4)
  by (simp add: numeral_2_eq_2)

lemma grad_vals_run:
  "backpropQuadCost n data eta h = Inr ((nB, nW), h')
   \<Longrightarrow> grad_vals n data eta h = Some (map (val h') nB, map (val h') nW)"
  by (simp add: grad_vals_def)

text \<open>
  Claim C2, as the code has it.  On a well-formed network with \<open>L \<ge> 2\<close> layers and a
  well-formed example backpropagation returns, the bias gradient of the last layer is
  the output error \<open>delta\<close>, and the weight gradient of the last layer is the transpose
  of \<open>activations[L-2]\<close>, the activation that enters the last layer, times \<open>delta\<close>.
  For two layers that activation is \<open>activations[0]\<close>, the input.
\<close>

theorem output_gradients:
  assumes "wf_net h n szs"
    and "okd h x" and "Rows x = 1" and "Cols x = szs ! 0"
    and "okd h y" and "Rows y = 1" and "Cols y = szs ! (length szs - 1)"
  shows "\<exists>nB nW h' delta. backpropQuadCost n [x, y] eta h = Inr ((nB, nW), h')
     \<and> delta = mhad (msub (act_at (params h n) (val h x) (length szs - 1)) (val h y))
                    (mapply sigmoidPrimeMatrix (z_at (params h n) (val h x) (length szs - 2)))
     \<and> length nB = length szs - 1 \<and> length nW = length szs - 1
     \<and> val h' (nB ! (length szs - 2)) = delta
     \<and> val h' (nW ! (length szs - 2))
         = mmul (mtrans (act_at (params h n) (val h x) (length szs - 2))) delta"
proof -
  from backprop_total[OF assms, of eta] obtain nB nW h' where
    r: "backpropQuadCost n [x, y] eta h = Inr ((nB, nW), h')"
    and g: "wf_grads h' szs nB nW"
    and v: "val h' (nB ! (length szs - 2))
         = mhad (msub (act_at (params h n) (val h x) (length szs - 1)) (val h y))
                (mapply sigmoidPrimeMatrix (z_at (params h n) (val h x) (length szs - 2)))"
      "val h' (nW ! (length szs - 2))
         = mmul (mtrans (act_at (params h n) (val h x) (length szs - 2)))
                (val h' (nB ! (length szs - 2)))"
    by blast
  have "length nB = length szs - 1" "length nW = length szs - 1"
    using g by (simp_all add: wf_grads_def)
  with r v show ?thesis by simp
qed

theorem output_gradients_witness:
  "wf_net h3 net3 [1, 2, 1] \<and> okd h3 (ex3 ! 0) \<and> okd h3 (ex3 ! 1)
   \<and> (\<exists>nB nW h'. backpropQuadCost net3 [ex3 ! 0, ex3 ! 1] 1 h3 = Inr ((nB, nW), h')
        \<and> val h' (nW ! 1)
            = mmul (mtrans (act_at (params h3 net3) (val h3 (ex3 ! 0)) 1)) (val h' (nB ! 1)))"
  using output_gradients[OF wf_net3 ex3_ok(1,2,3,4,5,6), of 1] wf_net3 ex3_ok(1,4)
  by (auto simp: numeral_2_eq_2)

text \<open>
  The claim as it is written takes \<open>activations[L-3]\<close>.  On the three-layer network
  \<open>net3\<close>, of sizes 1, 2, 1, the weight gradient of the last layer has two rows, and
  the transpose of \<open>activations[0]\<close> times \<open>delta\<close> has one.
\<close>

theorem output_gradients_counterexample:
  "snd (the (grad_vals net3 ex3 1 h3)) ! 1
   \<noteq> mmul (mtrans (act_at (params h3 net3) (val h3 (ex3 ! 0)) 0))
          (fst (the (grad_vals net3 ex3 1 h3)) ! 1)"
proof -
  from backprop_total[OF wf_net3 ex3_ok(1,2,3,4,5,6), of 1] obtain nB nW h' where
    r: "backpropQuadCost net3 [ex3 ! 0, ex3 ! 1] 1 h3 = Inr ((nB, nW), h')"
    and g: "wf_grads h' [1, 2, 1] nB nW"
    by blast
  have e: "[ex3 ! 0, ex3 ! 1] = ex3" using ex3_ok(7) by simp
  have gv: "grad_vals net3 ex3 1 h3 = Some (map (val h') nB, map (val h') nW)"
    using grad_vals_run[OF r] by (simp only: e)
  have len: "length nB = 2" "length nW = 2" using g by (simp_all add: wf_grads_def)
  have "Rows (nW ! 1) = 2" using wf_gradsD(5)[OF g, of 1] by simp
  then have "nr (snd (the (grad_vals net3 ex3 1 h3)) ! 1) = 2" using len by (simp add: gv)
  moreover have "nr (mmul (mtrans (act_at (params h3 net3) (val h3 (ex3 ! 0)) 0))
          (fst (the (grad_vals net3 ex3 1 h3)) ! 1)) = 1"
    using ex3_ok(3) by simp
  ultimately show ?thesis by auto
qed

subsection \<open>Which examples an iteration of SGD reads\<close>

lemma forM_cong:
  "(\<And>i s. i \<in> set is \<Longrightarrow> f i s = g i s) \<Longrightarrow> forM is f s = forM is g s"
proof (induction "is" arbitrary: s)
  case Nil
  show ?case by simp
next
  case (Cons i "is")
  have "f i s = g i s" using Cons.prems by simp
  moreover have "forM is f = forM is g" using Cons by (intro ext) simp
  ultimately show ?case by simp
qed

lemma forM_Nil_fun: "forM [] f = Inr"
  by (rule ext) simp

lemma sgd_example_last:
  assumes "i + j < 3"
  shows "sgd_example n [e0, e1, e2, x] eta sz i j s = sgd_example n [e0, e1, e2, y] eta sz i j s"
proof -
  have "([e0, e1, e2] @ [x]) ! (i + j) = ([e0, e1, e2] @ [y]) ! (i + j)"
    using assms by (simp only: nth_append) simp
  then show ?thesis using assms by (simp add: sgd_example_def index_def)
qed

lemma sgd_batch_last:
  assumes "i < 2"
  shows "sgd_batch n [e0, e1, e2, x] eta sz i (2, h) = sgd_batch n [e0, e1, e2, y] eta sz i (2, h)"
proof -
  have "forM [0..<2] (sgd_example n [e0, e1, e2, x] eta sz i) s
      = forM [0..<2] (sgd_example n [e0, e1, e2, y] eta sz i) s" for s
    using assms by (intro forM_cong sgd_example_last) simp
  then show ?thesis using assms by (simp add: sgd_batch_def)
qed

lemma sgd_batch_size:
  assumes "sgd_batch n data eta sz i (bs, h) = Inr (bs', h')"
  shows "bs' = (if int (length data) - int i * bs < bs
                then int (length data) - int i * bs else bs)"
  using assms by (auto simp: sgd_batch_def andThen_eq_Inr Let_def)

text \<open>
  Claim C1 fails on the code.  Iteration \<open>i\<close> backpropagates \<^verbatim>\<open>data[i+j]\<close> for
  \<open>j\<close> below the batch size, not \<^verbatim>\<open>data[i*batchSize+j]\<close>.  On a training set of
  four examples with batch size 2 the two iterations read the examples 0, 1 and 1, 2:
  the last example is never read, so replacing it by any other one leaves the whole
  result of SGD as it is, for every network, learning rate, test set and store.
\<close>

theorem SGD_last_example_unread:
  "SGD n [e0, e1, e2, x] eta 2 test h = SGD n [e0, e1, e2, y] eta 2 test h"
proof -
  let ?f = "\<lambda>d. sgd_batch n [e0, e1, e2, d] eta (nat (NumLayers n - 1))"
  have two: "[0..<2] = [0, Suc 0]" by (simp add: upt_rec)
  have loop: "forM [0..<2] (?f x) (2, h) = forM [0..<2] (?f y) (2, h)"
  proof (cases "?f x 0 (2, h)")
    case (Inl e)
    then show ?thesis using sgd_batch_last[of 0 n e0 e1 e2 x eta _ h y] by (simp add: two)
  next
    case (Inr s)
    obtain bs' h' where s: "s = (bs', h')" by (cases s)
    have "bs' = 2" using sgd_batch_size[OF Inr[unfolded s]] by simp
    then show ?thesis
      using Inr sgd_batch_last[of 0 n e0 e1 e2 x eta _ h y]
        sgd_batch_last[of 1 n e0 e1 e2 x eta _ h' y]
      by (simp add: two s forM_Nil_fun)
  qed
  have it: "(4::int) sdiv 2 = 2" "(4::int) smod 2 = 0"
    by (simp_all add: signed_divide_int_def signed_modulo_int_def)
  show ?thesis using loop by (simp add: SGD_def it)
qed

subsection \<open>Which calls can stop in \<^verbatim>\<open>log.Fatal\<close>\<close>

lemma fatal_only_Inr [simp]: "fatal_only P (Inr x)"
  by (simp add: fatal_only_def)

lemma fatal_only_Panic [simp]: "fatal_only P (Inl (Panic s))"
  by (simp add: fatal_only_def)

lemma fatal_only_andThen:
  "fatal_only P m \<Longrightarrow> (\<And>x. fatal_only P (f x)) \<Longrightarrow> fatal_only P (andThen m f)"
  by (cases m) (simp_all add: fatal_only_def)

lemma fatal_only_forM: "(\<And>i s. fatal_only P (f i s)) \<Longrightarrow> fatal_only P (forM is f s)"
  by (induction "is" arbitrary: s) (simp_all add: fatal_only_andThen)

lemma fatal_only_prod: "(\<And>a b. fatal_only P (f a b)) \<Longrightarrow> fatal_only P (case x of (a, b) \<Rightarrow> f a b)"
  by (cases x) simp

lemma fatal_only_prod2:
  "(\<And>a b. fatal_only P (f a b c)) \<Longrightarrow> fatal_only P ((case x of (a, b) \<Rightarrow> f a b) c)"
  by (cases x) simp

lemma fatal_only_if:
  "(c \<Longrightarrow> fatal_only P a) \<Longrightarrow> (\<not> c \<Longrightarrow> fatal_only P b) \<Longrightarrow> fatal_only P (if c then a else b)"
  by simp

lemma fatal_only_index [simp]: "fatal_only P (index xs i)"
  by (simp add: index_def)

lemma fatal_only_reuseAs [simp]: "fatal_only P (reuseAs m r c h)"
  by (simp add: reuseAs_def Let_def split: prod.splits)

lemma fatal_only_assign [simp]: "fatal_only P (assign m r c xs h)"
  unfolding assign_def by (intro fatal_only_andThen fatal_only_prod) simp_all

lemma fatal_only_ops [simp]:
  "fatal_only P (Mul m a b h)" "fatal_only P (Add m a b h)" "fatal_only P (Sub m a b h)"
  "fatal_only P (MulElem m a b h)" "fatal_only P (Apply fn m a h)" "fatal_only P (Clone a h)"
  "fatal_only P (NewDense r c h)" "fatal_only P (At m i j h)" "fatal_only P (Set m i j v h)"
  by (simp_all add: Mul_def Add_def Sub_def MulElem_def Apply_def Clone_def NewDense_def
        At_def Set_def Let_def split: slice.splits)

lemmas fatal_only_intros =
  fatal_only_andThen fatal_only_forM fatal_only_prod fatal_only_prod2 fatal_only_if

lemma fatal_only_quadraticCost [simp]: "fatal_only P (quadraticCost a b h)"
  by (simp add: quadraticCost_def)

lemma fatal_only_ff_layer [simp]: "fatal_only P (ff_layer n i s)"
  unfolding ff_layer_def by (intro fatal_only_intros) simp_all

lemma fatal_only_FeedForward [simp]: "fatal_only P (FeedForward n input h)"
  unfolding FeedForward_def by (intro fatal_only_intros) simp_all

lemma fatal_only_bp_forward [simp]: "fatal_only P (bp_forward n i s)"
  unfolding bp_forward_def by (intro fatal_only_intros) simp_all

lemma fatal_only_bp_clone [simp]: "fatal_only P (bp_clone n i s)"
  unfolding bp_clone_def by (intro fatal_only_intros) simp_all

lemma fatal_only_bp_output [simp]: "fatal_only P (bp_output data sz acts zs s)"
  unfolding bp_output_def by (intro fatal_only_intros) simp_all

lemma fatal_only_bp_backward [simp]: "fatal_only P (bp_backward n acts zs i s)"
  unfolding bp_backward_def by (intro fatal_only_intros) simp_all

lemma backprop_fatal:
  "fatal_only (\<lambda>msg. length data \<noteq> 2 \<and> msg = ''Input and output data set mismatch'')
     (backpropQuadCost n data eta h)"
proof (cases "length data = 2")
  case True
  then show ?thesis
    unfolding backpropQuadCost_def Let_def
    by (simp del: fatal_only_Inr) (intro impI fatal_only_intros, simp_all)
next
  case False
  then show ?thesis by (simp add: backpropQuadCost_def fatal_only_def)
qed

lemma fatal_only_mono: "fatal_only P r \<Longrightarrow> (\<And>m. P m \<Longrightarrow> Q m) \<Longrightarrow> fatal_only Q r"
  by (auto simp: fatal_only_def)

lemma fatal_only_init_layer [simp]: "fatal_only P (init_layer sz rnd i s)"
  unfolding init_layer_def init_cell_def by (intro fatal_only_intros) simp_all

lemma Init_fatal: "2 \<le> length sz \<Longrightarrow> fatal_only (\<lambda>msg. False) (Init sz rnd h)"
  unfolding Init_def Let_def init_sizes_def
  by (simp del: fatal_only_Inr) (intro fatal_only_intros, simp_all)

lemma fatal_only_sgd_alloc [simp]: "fatal_only P (sgd_alloc n i s)"
  unfolding sgd_alloc_def by (intro fatal_only_intros) simp_all

lemma fatal_only_sgd_add [simp]: "fatal_only P (sgd_add tB tW k s)"
  unfolding sgd_add_def by (intro fatal_only_intros) simp_all

lemma fatal_only_sgd_cell [simp]: "fatal_only P (sgd_cell p g eta bs j k h)"
  unfolding sgd_cell_def by (intro fatal_only_intros) simp_all

lemma fatal_only_sgd_descend [simp]: "fatal_only P (sgd_descend p g eta bs h)"
  by (simp add: sgd_descend_def Caps_def) (intro fatal_only_intros, simp)

lemma fatal_only_sgd_update [simp]: "fatal_only P (sgd_update n nB nW eta bs i h)"
  unfolding sgd_update_def by (intro fatal_only_intros) simp_all

lemma fatal_only_sgd_example:
  "fatal_only (\<lambda>msg. msg = ''Input and output data set mismatch'')
     (sgd_example n data eta sz i j s)"
  unfolding sgd_example_def
  by (intro fatal_only_intros fatal_only_mono[OF backprop_fatal]) simp_all

lemma fatal_only_sgd_batch:
  "fatal_only (\<lambda>msg. msg = ''Input and output data set mismatch'')
     (sgd_batch n data eta sz i s)"
  unfolding sgd_batch_def Let_def
  by (intro fatal_only_intros fatal_only_sgd_example) simp_all

lemma fatal_only_sgd_test [simp]: "fatal_only P (sgd_test n accept ts i s)"
  unfolding sgd_test_def by (intro fatal_only_intros) simp_all

lemma SGD_fatal:
  assumes "2 \<le> NumLayers n"
  shows "fatal_only (\<lambda>msg. msg = ''Input and output data set mismatch'')
           (SGD n data eta bs test h)"
proof -
  have "fatal_only (\<lambda>msg. msg = ''Input and output data set mismatch'')
     (case (t, tf) of
        (Some ts, Some accept) \<Rightarrow>
          andThen (forM [0..<length ts] (sgd_test n accept ts) (0, h')) (\<lambda>(correct, h).
          Inr (Some (correct, length ts), h))
      | _ \<Rightarrow> Inr (None, h'))" for h' t tf
    by (cases t; cases tf) (simp_all, intro fatal_only_intros, simp_all)
  then show ?thesis
    using assms unfolding SGD_def Let_def
    by (intro fatal_only_intros fatal_only_sgd_batch) simp_all
qed

lemma andThen_weak_cong: "m = m' \<Longrightarrow> andThen m f = andThen m' f"
  by simp

lemma upt_2: "[0..<2] = [0, 1]"
  by (simp add: upt_rec)

lemma SGD_malformed_example:
  "SGD net3 [[ex3 ! 0]] 1 1 None h3 = Inl (Fatal ''Input and output data set mismatch'')"
  by (simp add: SGD_def sgd_batch_def sgd_alloc_def sgd_example_def backpropQuadCost_def
        At_def NewDense_def trunc_def index_def net3_def h3_def upt_2
        signed_modulo_int_def
      cong: andThen_weak_cong)




subsection \<open>Running the operations on given matrices\<close>

lemma val_hdr: "a < length h \<Longrightarrow> l = r * c \<Longrightarrow> l \<le> length (h ! a) \<Longrightarrow>
  val h (hdr r c (Slice a l)) = \<lparr>nr = r, nc = c, el = take l (h ! a)\<rparr>"
  using val_okd[of h "hdr r c (Slice a l)"] by (simp add: okd_hdr_iff)

lemma assign_zero: "assign zeroDense r c xs h =
   (if r * c = 0 then Inr (hdr r c NilSlice, h)
    else Inr (hdr r c (Slice (length h) (r * c)),
              (h @ [replicate (r * c) 0])[length h := xs @ drop (length xs) (replicate (r * c) 0)]))"
  by (simp add: assign_def reuseAs_def zeroDense_def isZero_def use_def store_def)

lemma assign_hdr: "a < length h \<Longrightarrow> l = r * c \<Longrightarrow> l \<le> length (h ! a) \<Longrightarrow> r' = r \<Longrightarrow> c' = c \<Longrightarrow>
  assign (hdr r c (Slice a l)) r' c' xs h
  = Inr (hdr r c (Slice a l), h[a := xs @ drop (length xs) (h ! a)])"
  using assign_same[of h "hdr r c (Slice a l)" r c xs] by (simp add: okd_hdr_iff store_def)

lemma assign_Reset: "assign (Reset (hdr r c (Slice a l))) r' c' xs h =
  (if r' * c' \<le> length (h ! a)
   then Inr (hdr r' c' (Slice a (r' * c')), h[a := xs @ drop (length xs) (h ! a)])
   else Inr (hdr r' c' (Slice (length h) (r' * c')),
             (h @ [replicate (r' * c') 0])[length h := xs @ drop (length xs) (replicate (r' * c') 0)]))"
  by (simp add: assign_def reuseAs_def Reset_def isZero_def use_def store_def hdr_def)

lemma Clone_run: "Clone a h = Inr (hdr (nr (mval h a)) (nc (mval h a))
    (Slice (length h) (nr (mval h a) * nc (mval h a))), h @ [el (mval h a)])"
  by (simp add: Clone_def Let_def)

lemma upt_3: "[0..<3] = [0, 1, 2]"
  by (simp add: upt_rec)

lemma replicate_small:
  "replicate 2 x = [x, x]" "replicate 3 x = [x, x, x]" "replicate 4 x = [x, x, x, x]"
  by (simp_all add: numeral_eq_Suc)

lemmas run_ops = replicate_small Mul_def Add_def Sub_def MulElem_def Apply_def Clone_run assign_zero assign_hdr
  assign_Reset val_hdr mk_def mmul_def madd_def msub_def mhad_def mapply_def mtrans_def entry_def
  sigmoidMatrix_def sigmoidPrimeMatrix_def sigmoid_def index_def

subsection \<open>Backpropagation on a four-layer network\<close>

lemma bp4_forward:
  "forM [0..<3] (bp_forward net4)
     ((replicate (3 + 1) zeroDense)[0 := hdr 1 1 (Slice 9 1)], replicate 3 zeroDense, h4 @ [[0]])
   = Inr ([hdr 1 1 (Slice 9 1), hdr 1 1 (Slice 10 1), hdr 1 1 (Slice 12 1), hdr 1 1 (Slice 14 1)],
          [hdr 1 1 (Slice 11 1), hdr 1 1 (Slice 13 1), hdr 1 1 (Slice 15 1)],
          h4 @ [[0], [1 / 2], [0], [1 / 2], [0], [1 / 2], [0]])"
  by (simp add: bp_forward_def net4_def h4_def run_ops upt_3 cong: andThen_weak_cong)

lemma bp4_clone:
  "forM [0..<3] (bp_clone net4) (replicate 3 zeroDense, replicate 3 zeroDense,
      h4 @ [[0], [1 / 2], [0], [1 / 2], [0], [1 / 2], [0]])
   = Inr ([hdr 1 1 (Slice 17 1), hdr 1 1 (Slice 19 1), hdr 1 1 (Slice 21 1)],
          [hdr 1 1 (Slice 16 1), hdr 1 1 (Slice 18 1), hdr 1 1 (Slice 20 1)],
          h4 @ [[0], [1 / 2], [0], [1 / 2], [0], [1 / 2], [0], [2], [0], [2], [- 1], [2], [- 1]])"
  by (simp add: bp_clone_def net4_def h4_def run_ops upt_3 cong: andThen_weak_cong)

lemma bp4_output:
  "bp_output ex4 3
     [hdr 1 1 (Slice 9 1), hdr 1 1 (Slice 10 1), hdr 1 1 (Slice 12 1), hdr 1 1 (Slice 14 1)]
     [hdr 1 1 (Slice 11 1), hdr 1 1 (Slice 13 1), hdr 1 1 (Slice 15 1)]
     ([hdr 1 1 (Slice 17 1), hdr 1 1 (Slice 19 1), hdr 1 1 (Slice 21 1)],
      [hdr 1 1 (Slice 16 1), hdr 1 1 (Slice 18 1), hdr 1 1 (Slice 20 1)],
      h4 @ [[0], [1 / 2], [0], [1 / 2], [0], [1 / 2], [0], [2], [0], [2], [- 1], [2], [- 1]])
   = Inr (hdr 1 1 (Slice 24 1),
          [hdr 1 1 (Slice 17 1), hdr 1 1 (Slice 19 1), hdr 1 1 (Slice 25 1)],
          [hdr 1 1 (Slice 16 1), hdr 1 1 (Slice 18 1), hdr 1 1 (Slice 20 1)],
          h4 @ [[0], [1 / 2], [0], [1 / 2], [0], [1 / 2], [0], [2], [0], [2], [- 1], [1 / 16], [- 1],
                [1 / 2], [1 / 4], [1 / 8], [1 / 8]])"
  by (simp add: bp_output_def quadraticCost_def ex4_def h4_def run_ops cong: andThen_weak_cong)

lemma bp4_backward:
  "forM (rev [0..<3 - 1])
     (bp_backward net4
        [hdr 1 1 (Slice 9 1), hdr 1 1 (Slice 10 1), hdr 1 1 (Slice 12 1), hdr 1 1 (Slice 14 1)]
        [hdr 1 1 (Slice 11 1), hdr 1 1 (Slice 13 1), hdr 1 1 (Slice 15 1)])
     (hdr 1 1 (Slice 24 1),
      [hdr 1 1 (Slice 17 1), hdr 1 1 (Slice 19 1), hdr 1 1 (Slice 25 1)],
      [hdr 1 1 (Slice 16 1), hdr 1 1 (Slice 18 1), hdr 1 1 (Slice 20 1)],
      h4 @ [[0], [1 / 2], [0], [1 / 2], [0], [1 / 2], [0], [2], [0], [2], [- 1], [1 / 16], [- 1],
            [1 / 2], [1 / 4], [1 / 8], [1 / 8]])
   = Inr (hdr 1 1 (Slice 24 1),
          [hdr 1 1 (Slice 24 1), hdr 1 1 (Slice 24 1), hdr 1 1 (Slice 25 1)],
          [hdr 1 1 (Slice 16 1), hdr 1 1 (Slice 18 1), hdr 1 1 (Slice 20 1)],
          h4 @ [[0], [1 / 2], [0], [1 / 2], [0], [1 / 2], [0], [0], [0], [1 / 32], [- 1], [1 / 16],
                [- 1], [1 / 2], [1 / 4], [1 / 32], [1 / 8], [1 / 4], [1 / 4], [1 / 4], [1 / 8]])"
  by (simp add: bp_backward_def net4_def h4_def run_ops upt_2 cong: andThen_weak_cong)

lemma bp4_run:
  "backpropQuadCost net4 ex4 1 h4
   = Inr (([hdr 1 1 (Slice 24 1), hdr 1 1 (Slice 24 1), hdr 1 1 (Slice 25 1)],
           [hdr 1 1 (Slice 16 1), hdr 1 1 (Slice 18 1), hdr 1 1 (Slice 20 1)]),
          h4 @ [[0], [1 / 2], [0], [1 / 2], [0], [1 / 2], [0], [0], [0], [1 / 32], [- 1], [1 / 16],
                [- 1], [1 / 2], [1 / 4], [1 / 32], [1 / 8], [1 / 4], [1 / 4], [1 / 4], [1 / 8]])"
proof -
  have a: "(length ex4 \<noteq> 2) = False" "(NumLayers net4 - 1 < 0) = False"
    "nat (NumLayers net4 - 1) = 3"
    by (simp_all add: ex4_def net4_def)
  have c: "Clone (M (ex4 ! 0)) h4 = Inr (hdr 1 1 (Slice 9 1), h4 @ [[0]])"
    by (simp add: ex4_def h4_def run_ops)
  show ?thesis
    unfolding backpropQuadCost_def Let_def a
    by (simp only: c bp4_forward bp4_clone bp4_output bp4_backward andThen_Inr prod.case if_False)
qed

lemma grad_vals4:
  "grad_vals net4 ex4 1 h4
   = Some ([row1 (1 / 32), row1 (1 / 32), row1 (1 / 8)], [row1 0, row1 (1 / 32), row1 (1 / 16)])"
  by (simp add: grad_vals_def bp4_run) (simp add: val_hdr h4_def row1_def)

lemma params4:
  "params h4 net4 = [(row1 2, row1 0), (row1 2, row1 (- 1)), (row1 2, row1 (- 1))]"
  by (simp add: params_def net4_def h4_def val_hdr row1_def)

lemmas row_ops = row1_def mk_def mmul_def madd_def msub_def mhad_def mapply_def mtrans_def
  entry_def sigmoidMatrix_def sigmoidPrimeMatrix_def sigmoid_def

lemma delta4:
  "delta_back (params h4 net4) (row1 0) (row1 0) (Suc (Suc 0)) 0 = row1 (1 / 8)"
  "delta_back (params h4 net4) (row1 0) (row1 0) (Suc (Suc 0)) (Suc 0) = row1 (1 / 16)"
  "delta_back (params h4 net4) (row1 0) (row1 0) (Suc (Suc 0)) (Suc (Suc 0)) = row1 (1 / 32)"
proof -
  let ?P = "params h4 net4"
  let ?X = "row1 0"
  have z0: "z_at ?P ?X 0 = row1 0"
    by (simp add: z_at_def params4) (simp add: row_ops)
  have a1: "act_at ?P ?X (Suc 0) = row1 (1 / 2)"
    unfolding act_at_Suc z0 by (simp add: row_ops)
  have z1: "z_at ?P ?X (Suc 0) = row1 0"
    unfolding z_at_def a1 by (simp add: params4) (simp add: row_ops)
  have a2: "act_at ?P ?X (Suc (Suc 0)) = row1 (1 / 2)"
    unfolding act_at_Suc z1 by (simp add: row_ops)
  have z2: "z_at ?P ?X (Suc (Suc 0)) = row1 0"
    unfolding z_at_def a2 by (simp add: params4) (simp add: row_ops)
  have a3: "act_at ?P ?X (Suc (Suc (Suc 0))) = row1 (1 / 2)"
    unfolding act_at_Suc z2 by (simp add: row_ops)
  show d0: "delta_back ?P ?X (row1 0) (Suc (Suc 0)) 0 = row1 (1 / 8)"
    unfolding delta_back.simps a3 z2 by (simp add: row_ops)
  have "delta_back ?P ?X (row1 0) (Suc (Suc 0)) (Suc 0)
      = mhad (mmul (row1 (1 / 8)) (mtrans (fst (?P ! Suc (Suc 0)))))
             (mapply sigmoidPrimeMatrix (z_at ?P ?X (Suc 0)))"
    unfolding delta_back.simps(2) d0 by simp
  then show d1: "delta_back ?P ?X (row1 0) (Suc (Suc 0)) (Suc 0) = row1 (1 / 16)"
    unfolding z1 by (simp add: params4) (simp add: row_ops)
  have "delta_back ?P ?X (row1 0) (Suc (Suc 0)) (Suc (Suc 0))
      = mhad (mmul (row1 (1 / 16)) (mtrans (fst (?P ! Suc 0))))
             (mapply sigmoidPrimeMatrix (z_at ?P ?X 0))"
    unfolding delta_back.simps(2)[of _ _ _ _ "Suc 0"] d1 by simp
  then show "delta_back ?P ?X (row1 0) (Suc (Suc 0)) (Suc (Suc 0)) = row1 (1 / 32)"
    unfolding z0 by (simp add: params4) (simp add: row_ops)
qed

text \<open>
  Claim C3 fails on the code when the network has four layers or more.  In the backward
  loop \<^verbatim>\<open>nablaB[i] = delta\<close> copies the header of \<^verbatim>\<open>delta\<close>: the gradient and
  \<^verbatim>\<open>delta\<close> share one backing array.  The next iteration resets \<^verbatim>\<open>delta\<close> and
  multiplies into it again; \<^verbatim>\<open>Reset\<close> keeps the backing array and \<^verbatim>\<open>reuseAs\<close>
  takes it up when its capacity suffices, so the new \<^verbatim>\<open>delta\<close> overwrites the
  gradient stored before.  On the network \<open>net4\<close> of sizes 1, 1, 1, 1 with weights 2,
  biases 0, -1, -1, input 0 and desired output 0, the errors of the layers 2, 1, 0 are
  1/8, 1/16 and 1/32 by the recursion of the claim (\<open>delta_back\<close>).  The code returns the
  weight gradients of these errors, but the bias gradient of layer 1 is 1/32, the error
  of layer 0.
\<close>

theorem backward_bias_gradient_overwritten:
  "grad_vals net4 ex4 1 h4
     = Some ([row1 (1 / 32), row1 (1 / 32), row1 (1 / 8)], [row1 0, row1 (1 / 32), row1 (1 / 16)])
   \<and> map (delta_back (params h4 net4) (val h4 (ex4 ! 0)) (val h4 (ex4 ! 1)) 2) [2, 1, 0]
     = [row1 (1 / 32), row1 (1 / 16), row1 (1 / 8)]
   \<and> fst (the (grad_vals net4 ex4 1 h4)) ! 1
     \<noteq> delta_back (params h4 net4) (val h4 (ex4 ! 0)) (val h4 (ex4 ! 1)) 2 1"
proof -
  have v: "val h4 (ex4 ! 0) = row1 0" "val h4 (ex4 ! 1) = row1 0"
    by (simp_all add: ex4_def h4_def val_hdr row1_def)
  have n: "(2::nat) = Suc (Suc 0)" "(1::nat) = Suc 0" by simp_all
  have d: "delta_back (params h4 net4) (row1 0) (row1 0) 2 0 = row1 (1 / 8)"
    "delta_back (params h4 net4) (row1 0) (row1 0) 2 1 = row1 (1 / 16)"
    "delta_back (params h4 net4) (row1 0) (row1 0) 2 2 = row1 (1 / 32)"
    unfolding n by (rule delta4)+
  have ne: "row1 (1 / 32) \<noteq> row1 (1 / 16)" by (simp add: row1_def)
  have d': "delta_back (params h4 net4) (row1 0) (row1 0) 2 (Suc 0) = row1 (1 / 16)"
    using d(2) by (simp del: delta_back.simps)
  show ?thesis unfolding v by (simp add: grad_vals4 d d' ne del: delta_back.simps)
qed

text \<open>
  Claim C10.  The gradients returned by per-example backpropagation do not depend on the
  \<^verbatim>\<open>eta\<close> argument: two calls that differ only in \<^verbatim>\<open>eta\<close> return the same
  result, for every network, every example and every store.
\<close>

theorem backprop_eta_independent:
  "backpropQuadCost n data eta1 h = backpropQuadCost n data eta2 h"
  by (simp add: backpropQuadCost_def)

subsection \<open>Reading and writing single cells\<close>

lemma okd_Slice:
  assumes "okd h m" and "0 < Rows m * Cols m"
  obtains a where "Data m = Slice a (Rows m * Cols m)" "a < length h"
    "Rows m * Cols m \<le> length (h ! a)" "Stride m = Cols m"
  using assms by (cases "Data m") (auto simp: okd_def)

lemma cell_index:
  assumes "i < r" and "j < (c::nat)"
  shows "i * c + j < r * c"
proof -
  have "i * c + j < i * c + c" using assms(2) by simp
  also have "\<dots> = Suc i * c" by simp
  also have "\<dots> \<le> r * c" using assms(1) by (intro mult_le_mono1) simp
  finally show ?thesis .
qed

lemma Set_total:
  assumes ok: "okd h m" and i: "i < Rows m" and j: "j < Cols m"
  shows "\<exists>h'. Set m i j v h = Inr h' \<and> mods (addr m) h h' \<and> length h' = length h
     \<and> cells h' (Data m) = (cells h (Data m))[i * Cols m + j := v]"
proof -
  have pos: "0 < Rows m * Cols m" using i j by simp
  from okd_Slice[OF ok pos] obtain a where
    d: "Data m = Slice a (Rows m * Cols m)" "a < length h"
      "Rows m * Cols m \<le> length (h ! a)" "Stride m = Cols m" by blast
  have k: "i * Cols m + j < Rows m * Cols m" using i j by (rule cell_index)
  have "Set m i j v h = Inr (h[a := (h ! a)[i * Cols m + j := v]])"
    using i j d k by (simp add: Set_def)
  moreover have "mods (addr m) h (h[a := (h ! a)[i * Cols m + j := v]])"
    using d by (auto simp: mods_def addr_def nth_list_update)
  moreover have "cells (h[a := (h ! a)[i * Cols m + j := v]]) (Data m)
      = (cells h (Data m))[i * Cols m + j := v]"
    using d by (simp add: take_update_swap)
  ultimately show ?thesis by simp
qed

lemma At_total:
  assumes ok: "okd h m" and i: "i < Rows m" and j: "j < Cols m"
  shows "At m i j h = Inr (cells h (Data m) ! (i * Cols m + j))"
proof -
  have k: "i * Cols m + j < Rows m * Cols m" using i j by (rule cell_index)
  then show ?thesis using i j ok length_cells[OF ok] by (simp add: At_def okd_def)
qed

subsection \<open>Init\<close>

lemma init_row_total:
  assumes ok: "okd h w" and j: "j < Rows w"
  shows "\<exists>d' h'. forM [0..<Cols w] (init_cell w rnd j) (d, h) = Inr (d', h') \<and> mods (addr w) h h'
     \<and> length h' = length h"
proof -
  define I where "I = (\<lambda>(k::nat) (d'::nat, hk). mods (addr w) h hk \<and> length hk = length h)"
  have "\<exists>s'. forM [0..<Cols w] (init_cell w rnd j) (d, h) = Inr s' \<and> I (Cols w) s'"
  proof (rule forM_upt_total)
    show "I 0 (d, h)" by (simp add: I_def)
    show "0 \<le> Cols w" by simp
  next
    fix k s
    assume "0 \<le> k" and k: "k < Cols w" and Ik: "I k s"
    obtain d' hk where s: "s = (d', hk)" by (cases s)
    from Ik have m: "mods (addr w) h hk" and l: "length hk = length h" by (simp_all add: I_def s)
    have okk: "okd hk w" using ok m by (rule okd_mods)
    from Set_total[OF okk j k, of "rnd d'"] obtain h' where
      r: "Set w j k (rnd d') hk = Inr h'" and m': "mods (addr w) hk h'"
      and l': "length h' = length hk" by blast
    have "mods (addr w) h h'" using mods_trans[OF m m'] by simp
    with r l l' show "\<exists>s'. init_cell w rnd j k s = Inr s' \<and> I (Suc k) s'"
      by (simp add: init_cell_def s I_def)
  qed
  then show ?thesis by (auto simp: I_def)
qed

lemma init_fill_total:
  assumes ok: "okd h w"
  shows "\<exists>d' h'. forM [0..<Rows w] (\<lambda>j. forM [0..<Cols w] (init_cell w rnd j)) (d, h) = Inr (d', h')
     \<and> mods (addr w) h h' \<and> length h' = length h"
proof -
  define I where "I = (\<lambda>(k::nat) (d'::nat, hk). mods (addr w) h hk \<and> length hk = length h)"
  have "\<exists>s'. forM [0..<Rows w] (\<lambda>j. forM [0..<Cols w] (init_cell w rnd j)) (d, h) = Inr s'
      \<and> I (Rows w) s'"
  proof (rule forM_upt_total)
    show "I 0 (d, h)" by (simp add: I_def)
    show "0 \<le> Rows w" by simp
  next
    fix j s
    assume "0 \<le> j" and j: "j < Rows w" and Ij: "I j s"
    obtain d' hk where s: "s = (d', hk)" by (cases s)
    from Ij have m: "mods (addr w) h hk" and l: "length hk = length h" by (simp_all add: I_def s)
    have okk: "okd hk w" using ok m by (rule okd_mods)
    from init_row_total[OF okk j, of rnd d'] obtain d'' h' where
      r: "forM [0..<Cols w] (init_cell w rnd j) (d', hk) = Inr (d'', h')"
      and m': "mods (addr w) hk h'" and l': "length h' = length hk" by blast
    have "mods (addr w) h h'" using mods_trans[OF m m'] by simp
    with r l l' show "\<exists>s'. forM [0..<Cols w] (init_cell w rnd j) s = Inr s' \<and> I (Suc j) s'"
      by (simp add: s I_def)
  qed
  then show ?thesis by (auto simp: I_def)
qed

lemma fresh_write:
  assumes "addr w = {length h}" and "mods {} h h1" and "mods (addr w) h1 h2"
  shows "mods {} h h2"
  using mods_above[OF assms(3) _ assms(2)] assms(1) by simp

lemma init_layer_total:
  assumes nn: "0 \<le> sz ! i" "0 \<le> sz ! (i + 1)"
  shows "\<exists>w b d' h'. init_layer sz rnd i (ws, bs, d, h) = Inr (ws[i := w], bs[i := b], d', h')
     \<and> mods {} h h' \<and> length h' = length h + 2
     \<and> okd h' w \<and> Rows w = nat (sz ! i) \<and> Cols w = nat (sz ! (i + 1)) \<and> addr w = {length h}
     \<and> okd h' b \<and> Rows b = 1 \<and> Cols b = nat (sz ! (i + 1)) \<and> addr b = {length h + 1}"
proof -
  obtain w h1 where r1: "NewDense (sz ! i) (sz ! (i + 1)) h = Inr (w, h1)"
    using NewDense_total[OF nn, of h] by blast
  note n1 = NewDense_wrote[OF r1]
  note f1 = wrote_fresh[OF n1(1)]
  have wd: "Rows w = nat (sz ! i)" "Cols w = nat (sz ! (i + 1))"
    using f1(5,6) by (simp_all add: mzero_def)
  from init_fill_total[OF f1(3), of rnd d] obtain d1 h2 where
    r2: "forM [0..<nat (sz ! i)] (\<lambda>j. forM [0..<nat (sz ! (i + 1))] (init_cell w rnd j)) (d, h1)
         = Inr (d1, h2)"
    and m2: "mods (addr w) h1 h2" and e2: "length h2 = length h1" unfolding wd by blast
  have m02: "mods {} h h2" using n1(2) f1(1) m2 by (rule fresh_write)
  have l1: "length h1 = length h + 1" by (simp add: n1(3))
  have l2: "length h2 = length h + 1" using e2 l1 by simp
  have one: "(0::int) \<le> 1" by simp
  obtain b h3 where r3: "NewDense 1 (sz ! (i + 1)) h2 = Inr (b, h3)"
    using NewDense_total[OF one nn(2), of h2] by blast
  note n3 = NewDense_wrote[OF r3]
  note f3 = wrote_fresh[OF n3(1)]
  have bd: "Rows b = 1" "Cols b = nat (sz ! (i + 1))"
    using f3(5,6) by (simp_all add: mzero_def)
  have j0: "0 < Rows b" by (simp add: bd)
  from init_row_total[OF f3(3) j0, of rnd d1] obtain d2 h4 where
    r4: "forM [0..<nat (sz ! (i + 1))] (init_cell b rnd 0) (d1, h3) = Inr (d2, h4)"
    and m4: "mods (addr b) h3 h4" and e4: "length h4 = length h3" unfolding bd by blast
  have m24: "mods {} h2 h4" using n3(2) f3(1) m4 by (rule fresh_write)
  have m04: "mods {} h h4" using mods_trans[OF m02 m24] by simp
  have l3: "length h3 = length h + 2" by (simp add: n3(3) l2)
  have l4: "length h4 = length h + 2" using e4 l3 by simp
  have okw: "okd h4 w" using okd_mods[OF f1(3) m2] m24 by (rule okd_mods)
  have okb: "okd h4 b" using f3(3) m4 by (rule okd_mods)
  have ab: "addr b = {length h + 1}" using n3(2) l2 by simp
  have run: "init_layer sz rnd i (ws, bs, d, h) = Inr (ws[i := w], bs[i := b], d2, h4)"
    by (simp only: init_layer_def prod.case r1 r2 r3 r4 andThen_Inr)
  show ?thesis
    by (rule exI[of _ w], rule exI[of _ b], rule exI[of _ d2], rule exI[of _ h4])
      (use run m04 l4 okw wd n1(2) okb bd ab in simp)
qed

lemma sizes_fill:
  assumes "k < length sz"
  shows "(map f (take k sz) @ replicate (length sz - k) z)[k := f (sz ! k)]
      = map f (take (Suc k) sz) @ replicate (length sz - Suc k) z"
proof -
  have r: "replicate (length sz - k) z = z # replicate (length sz - Suc k) z"
    using assms by (cases "length sz - k") (simp_all add: Suc_diff_Suc)
  have l: "length (map f (take k sz)) = k" using assms by simp
  show ?thesis
    unfolding r using assms l by (simp add: take_Suc_conv_app_nth list_update_append)
qed

lemma init_sizes_total:
  assumes ok: "okd h s" and r: "Rows s = 1" and c: "Cols s = length sz"
    and z: "cells h (Data s) = replicate (length sz) 0"
  shows "\<exists>h'. forM [0..<length sz] (init_sizes s sz) h = Inr h' \<and> mods (addr s) h h'
     \<and> length h' = length h \<and> cells h' (Data s) = map of_int sz"
proof -
  define I where "I = (\<lambda>(k::nat) hk. mods (addr s) h hk \<and> length hk = length h
     \<and> cells hk (Data s) = map of_int (take k sz) @ replicate (length sz - k) 0)"
  have "\<exists>h'. forM [0..<length sz] (init_sizes s sz) h = Inr h' \<and> I (length sz) h'"
  proof (rule forM_upt_total)
    show "I 0 h" by (simp add: I_def z)
    show "0 \<le> length sz" by simp
  next
    fix k hk
    assume "0 \<le> k" and k: "k < length sz" and Ik: "I k hk"
    from Ik have m: "mods (addr s) h hk" and l: "length hk = length h"
      and cs: "cells hk (Data s) = map of_int (take k sz) @ replicate (length sz - k) 0"
      by (simp_all add: I_def)
    have okk: "okd hk s" using ok m by (rule okd_mods)
    have i0: "0 < Rows s" by (simp add: r)
    have kc: "k < Cols s" using k by (simp add: c)
    from Set_total[OF okk i0 kc, of "of_int (sz ! k)"] obtain h' where
      run: "Set s 0 k (of_int (sz ! k)) hk = Inr h'" and m': "mods (addr s) hk h'"
      and l': "length h' = length hk"
      and cs': "cells h' (Data s) = (cells hk (Data s))[0 * Cols s + k := of_int (sz ! k)]"
      by blast
    have "cells h' (Data s) = map of_int (take (Suc k) sz) @ replicate (length sz - Suc k) 0"
      using cs' sizes_fill[OF k, of of_int 0] by (simp add: cs)
    moreover have "mods (addr s) h h'" using mods_trans[OF m m'] by simp
    ultimately show "\<exists>s'. init_sizes s sz k hk = Inr s' \<and> I (Suc k) s'"
      using run l l' by (simp add: init_sizes_def I_def)
  qed
  then show ?thesis by (auto simp: I_def)
qed

lemma init_layers_total:
  assumes nn: "\<forall>x\<in>set sz. 0 \<le> x" and L: "length sz = Suc K"
  shows "\<exists>ws bs d' h'.
     forM [0..<K] (init_layer sz rnd) (replicate K zeroDense, replicate K zeroDense, d, h)
       = Inr (ws, bs, d', h')
     \<and> mods {} h h' \<and> length ws = K \<and> length bs = K
     \<and> (\<forall>i<K. okd h' (ws ! i) \<and> Rows (ws ! i) = nat (sz ! i) \<and> Cols (ws ! i) = nat (sz ! (i + 1))
            \<and> addr (ws ! i) = {length h + 2 * i}
            \<and> okd h' (bs ! i) \<and> Rows (bs ! i) = 1 \<and> Cols (bs ! i) = nat (sz ! (i + 1))
            \<and> addr (bs ! i) = {length h + 2 * i + 1})"
proof -
  define I where "I = (\<lambda>(k::nat) (ws, bs, d'::nat, hk).
     mods {} h hk \<and> length hk = length h + 2 * k \<and> length ws = K \<and> length bs = K
     \<and> (\<forall>i<k. okd hk (ws ! i) \<and> Rows (ws ! i) = nat (sz ! i) \<and> Cols (ws ! i) = nat (sz ! (i + 1))
            \<and> addr (ws ! i) = {length h + 2 * i}
            \<and> okd hk (bs ! i) \<and> Rows (bs ! i) = 1 \<and> Cols (bs ! i) = nat (sz ! (i + 1))
            \<and> addr (bs ! i) = {length h + 2 * i + 1}))"
  have "\<exists>s'. forM [0..<K] (init_layer sz rnd) (replicate K zeroDense, replicate K zeroDense, d, h)
      = Inr s' \<and> I K s'"
  proof (rule forM_upt_total)
    show "I 0 (replicate K zeroDense, replicate K zeroDense, d, h)" by (simp add: I_def)
    show "0 \<le> K" by simp
  next
    fix k s
    assume "0 \<le> k" and k: "k < K" and Ik: "I k s"
    obtain ws bs dk hk where s: "s = (ws, bs, dk, hk)" by (cases s)
    from Ik have m: "mods {} h hk" and l: "length hk = length h + 2 * k"
      and lw: "length ws = K" and lb: "length bs = K"
      and old: "\<And>i. i < k \<Longrightarrow> okd hk (ws ! i) \<and> Rows (ws ! i) = nat (sz ! i)
            \<and> Cols (ws ! i) = nat (sz ! (i + 1)) \<and> addr (ws ! i) = {length h + 2 * i}
            \<and> okd hk (bs ! i) \<and> Rows (bs ! i) = 1 \<and> Cols (bs ! i) = nat (sz ! (i + 1))
            \<and> addr (bs ! i) = {length h + 2 * i + 1}"
      by (simp_all add: I_def s)
    have n1: "0 \<le> sz ! k" "0 \<le> sz ! (k + 1)" using nn k L by simp_all
    from init_layer_total[OF n1, of rnd ws bs dk hk] obtain w b d' h' where
      run: "init_layer sz rnd k (ws, bs, dk, hk) = Inr (ws[k := w], bs[k := b], d', h')"
      and m': "mods {} hk h'" and l': "length h' = length hk + 2"
      and w: "okd h' w" "Rows w = nat (sz ! k)" "Cols w = nat (sz ! (k + 1))" "addr w = {length hk}"
      and b: "okd h' b" "Rows b = 1" "Cols b = nat (sz ! (k + 1))" "addr b = {length hk + 1}"
      by blast
    have m0: "mods {} h h'" using mods_trans[OF m m'] by simp
    have new: "okd h' ((ws[k := w]) ! i) \<and> Rows ((ws[k := w]) ! i) = nat (sz ! i)
            \<and> Cols ((ws[k := w]) ! i) = nat (sz ! (i + 1))
            \<and> addr ((ws[k := w]) ! i) = {length h + 2 * i}
            \<and> okd h' ((bs[k := b]) ! i) \<and> Rows ((bs[k := b]) ! i) = 1
            \<and> Cols ((bs[k := b]) ! i) = nat (sz ! (i + 1))
            \<and> addr ((bs[k := b]) ! i) = {length h + 2 * i + 1}" if i: "i < Suc k" for i
    proof (cases "i = k")
      case True
      then show ?thesis using w b l k lw lb by simp
    next
      case False
      then have ik: "i < k" using i by simp
      have "okd h' (ws ! i)" "okd h' (bs ! i)"
        using old[OF ik] okd_mods[OF _ m'] by blast+
      then show ?thesis using old[OF ik] False by simp
    qed
    show "\<exists>s'. init_layer sz rnd k s = Inr s' \<and> I (Suc k) s'"
      unfolding s run
      by (rule exI[of _ "(ws[k := w], bs[k := b], d', h')"])
        (use m0 l l' lw lb new in \<open>simp add: I_def\<close>)
  qed
  then show ?thesis by (auto simp: I_def)
qed

lemma Init_total:
  assumes L: "2 \<le> length sz" and nn: "\<forall>x\<in>set sz. 0 \<le> x"
  shows "\<exists>n h'. Init sz rnd h = Inr (n, h') \<and> mods {} h h'
     \<and> wf_net h' n (map nat sz) \<and> wf_sizes h' n (map nat sz) \<and> params_apart n
     \<and> TestFunc n = None"
proof -
  obtain K where K: "length sz = Suc K" and K1: "1 \<le> K"
    using L by (cases "length sz") auto
  have nl: "\<not> int (length sz) < 2" using L by simp
  have one: "(0::int) \<le> 1" and len: "0 \<le> int (length sz)" by simp_all
  obtain s h1 where r1: "NewDense 1 (int (length sz)) h = Inr (s, h1)"
    using NewDense_total[OF one len, of h] by blast
  note n1 = NewDense_wrote[OF r1]
  note f1 = wrote_fresh[OF n1(1)]
  have sd: "Rows s = 1" "Cols s = length sz" using f1(5,6) by (simp_all add: mzero_def)
  have "el (val h1 s) = cells h1 (Data s)" using val_okd[OF f1(3)] by simp
  moreover have "el (val h1 s) = replicate (length sz) 0"
    unfolding f1(4) by (simp add: el_mzero)
  ultimately have z: "cells h1 (Data s) = replicate (length sz) 0" by simp
  from init_sizes_total[OF f1(3) sd z] obtain h2 where
    r2: "forM [0..<length sz] (init_sizes s sz) h1 = Inr h2"
    and m2: "mods (addr s) h1 h2" and c2: "cells h2 (Data s) = map of_int sz" by blast
  have m02: "mods {} h h2" using n1(2) f1(1) m2 by (rule fresh_write)
  have ok2: "okd h2 s" using f1(3) m2 by (rule okd_mods)
  from init_layers_total[OF nn K, of rnd 0 h2] obtain ws bs d' h3 where
    r3: "forM [0..<K] (init_layer sz rnd) (replicate K zeroDense, replicate K zeroDense, 0, h2)
          = Inr (ws, bs, d', h3)"
    and m3: "mods {} h2 h3" and lw: "length ws = K" and lb: "length bs = K"
    and lay: "\<And>i. i < K \<Longrightarrow> okd h3 (ws ! i) \<and> Rows (ws ! i) = nat (sz ! i)
            \<and> Cols (ws ! i) = nat (sz ! (i + 1)) \<and> addr (ws ! i) = {length h2 + 2 * i}
            \<and> okd h3 (bs ! i) \<and> Rows (bs ! i) = 1 \<and> Cols (bs ! i) = nat (sz ! (i + 1))
            \<and> addr (bs ! i) = {length h2 + 2 * i + 1}"
    by blast
  define n where "n = \<lparr>NumLayers = int (length sz), Sizes = s, Weights = ws, Biases = bs,
     TestFunc = None\<rparr>"
  have nK: "nat (int (length sz) - 1) = K" using K by simp
  have run: "Init sz rnd h = Inr (n, h3)"
    unfolding Init_def Let_def n_def
    by (simp only: nl if_False r1 r2 nK r3 andThen_Inr prod.case)
  have m03: "mods {} h h3" using mods_trans[OF m02 m3] by simp
  have wf: "wf_net h3 n (map nat sz)"
    unfolding wf_net_def using L K lw lb lay by (simp add: n_def)
  have ok3: "okd h3 s" using ok2 m3 by (rule okd_mods)
  have "cells h3 (Data s) = cells h2 (Data s)"
    using ok2 m3 by (rule cells_mods) simp
  then have "el (val h3 s) = map of_int sz" using val_okd[OF ok3] c2 by simp
  moreover have "map of_int sz = map real (map nat sz)" using nn by simp
  ultimately have ws: "wf_sizes h3 n (map nat sz)"
    using ok3 sd by (simp add: wf_sizes_def n_def)
  have ap: "params_apart n"
    unfolding params_apart_def using lay lw lb by (simp add: n_def) presburger
  show ?thesis
    by (rule exI[of _ n], rule exI[of _ h3]) (use run m03 wf ws ap in \<open>simp add: n_def\<close>)
qed



subsection \<open>The update of one parameter matrix\<close>

lemma descended_0: "descended eta bs ps gs 0 = ps"
  by (simp add: descended_def map_nth)

lemma descended_length [simp]: "length (descended eta bs ps gs t) = length ps"
  by (simp add: descended_def)

lemma descended_nth: "t < length ps \<Longrightarrow> descended eta bs ps gs t ! t = ps ! t"
  by (simp add: descended_def)

lemma descended_step:
  assumes "t < length ps"
  shows "(descended eta bs ps gs t)[t := ps ! t - gs ! t * eta / of_int bs]
      = descended eta bs ps gs (Suc t)"
  using assms by (intro nth_equalityI) (auto simp: descended_def nth_list_update less_Suc_eq)

lemma sgd_cell_step:
  assumes p: "okd h p" and g: "okd h g" and d: "Rows g = Rows p" "Cols g = Cols p"
    and j: "j < Rows p" and k: "k < Cols p"
  shows "\<exists>h'. sgd_cell p g eta bs j k h = Inr h' \<and> mods (addr p) h h' \<and> length h' = length h
     \<and> cells h' (Data p) = (cells h (Data p))[j * Cols p + k :=
          cells h (Data p) ! (j * Cols p + k) - cells h (Data g) ! (j * Cols p + k) * eta / of_int bs]"
proof -
  have a1: "At p j k h = Inr (cells h (Data p) ! (j * Cols p + k))"
    using p j k by (rule At_total)
  have a2: "At g j k h = Inr (cells h (Data g) ! (j * Cols p + k))"
    using At_total[OF g, of j k] j k d by simp
  from Set_total[OF p j k] show ?thesis by (simp add: sgd_cell_def a1 a2)
qed

lemma sgd_row_total:
  assumes p: "okd h p" and g: "okd h g" and d: "Rows g = Rows p" "Cols g = Cols p"
    and dis: "addr g \<inter> addr p = {}" and j: "j < Rows p"
    and c0: "cells h (Data p) = descended eta bs ps gs (j * Cols p)"
    and lp: "length ps = Rows p * Cols p"
    and gs: "cells h (Data g) = gs"
  shows "\<exists>h'. forM [0..<Cols p] (sgd_cell p g eta bs j) h = Inr h' \<and> mods (addr p) h h'
     \<and> length h' = length h \<and> cells h' (Data p) = descended eta bs ps gs (Suc j * Cols p)"
proof -
  define I where "I = (\<lambda>(k::nat) hk. mods (addr p) h hk \<and> length hk = length h
     \<and> cells hk (Data p) = descended eta bs ps gs (j * Cols p + k))"
  have "\<exists>h'. forM [0..<Cols p] (sgd_cell p g eta bs j) h = Inr h' \<and> I (Cols p) h'"
  proof (rule forM_upt_total)
    show "I 0 h" by (simp add: I_def c0)
    show "0 \<le> Cols p" by simp
  next
    fix k hk
    assume "0 \<le> k" and k: "k < Cols p" and Ik: "I k hk"
    from Ik have m: "mods (addr p) h hk" and l: "length hk = length h"
      and cs: "cells hk (Data p) = descended eta bs ps gs (j * Cols p + k)"
      by (simp_all add: I_def)
    have pk: "okd hk p" using p m by (rule okd_mods)
    have gk: "okd hk g" using g m by (rule okd_mods)
    have gc: "cells hk (Data g) = gs" using cells_mods[OF g m dis] gs by simp
    have t: "j * Cols p + k < length ps" unfolding lp using j k by (rule cell_index)
    from sgd_cell_step[OF pk gk d j k, of eta bs] obtain h' where
      run: "sgd_cell p g eta bs j k hk = Inr h'" and m': "mods (addr p) hk h'"
      and l': "length h' = length hk"
      and cs': "cells h' (Data p) = (cells hk (Data p))[j * Cols p + k :=
          cells hk (Data p) ! (j * Cols p + k) - cells hk (Data g) ! (j * Cols p + k) * eta / of_int bs]"
      by blast
    have "cells h' (Data p) = descended eta bs ps gs (Suc (j * Cols p + k))"
      unfolding cs' cs gc descended_nth[OF t] by (rule descended_step[OF t])
    moreover have "mods (addr p) h h'" using mods_trans[OF m m'] by simp
    ultimately show "\<exists>s'. sgd_cell p g eta bs j k hk = Inr s' \<and> I (Suc k) s'"
      using run l l' by (simp add: I_def)
  qed
  then obtain h' where "forM [0..<Cols p] (sgd_cell p g eta bs j) h = Inr h'"
    "mods (addr p) h h'" "length h' = length h"
    "cells h' (Data p) = descended eta bs ps gs (j * Cols p + Cols p)"
    unfolding I_def by blast
  moreover have "j * Cols p + Cols p = Suc j * Cols p" by simp
  ultimately show ?thesis by metis
qed

lemma el_descend:
  assumes lp: "length ps = r * c" and lg: "length gs = r * c"
  shows "msub \<lparr>nr = r, nc = c, el = ps\<rparr> (mscale s \<lparr>nr = r, nc = c, el = gs\<rparr>)
     = \<lparr>nr = r, nc = c, el = map (\<lambda>u. ps ! u - s * gs ! u) [0..<r * c]\<rparr>"
proof -
  have "entry \<lparr>nr = r, nc = c, el = ps\<rparr> (u div c) (u mod c)
          - entry (mscale s \<lparr>nr = r, nc = c, el = gs\<rparr>) (u div c) (u mod c)
        = ps ! u - s * gs ! u" if u: "u < r * c" for u
  proof -
    have c: "0 < c" using u by (cases c) simp_all
    have i: "u div c < r" using u c by (simp add: less_mult_imp_div_less)
    have j: "u mod c < c" using c by simp
    have e: "u div c * c + u mod c = u" by simp
    show ?thesis using i j e by (simp add: mscale_def entry_mk) (simp add: entry_def)
  qed
  then show ?thesis by (simp add: msub_def mk_def)
qed

lemma sgd_descend_total:
  assumes p: "okd h p" and g: "okd h g" and d: "Rows g = Rows p" "Cols g = Cols p"
    and dis: "addr g \<inter> addr p = {}"
  shows "\<exists>h'. sgd_descend p g eta bs h = Inr h' \<and> mods (addr p) h h' \<and> length h' = length h
     \<and> val h' p = msub (val h p) (mscale (eta / of_int bs) (val h g))"
proof -
  define ps where "ps = cells h (Data p)"
  define gs where "gs = cells h (Data g)"
  have lp: "length ps = Rows p * Cols p" unfolding ps_def using p by (rule length_cells)
  have lg: "length gs = Rows p * Cols p" unfolding gs_def using length_cells[OF g] d by simp
  define I where "I = (\<lambda>(j::nat) hj. mods (addr p) h hj \<and> length hj = length h
     \<and> cells hj (Data p) = descended eta bs ps gs (j * Cols p))"
  have "\<exists>h'. forM [0..<Rows p] (\<lambda>j. forM [0..<Cols p] (sgd_cell p g eta bs j)) h = Inr h'
      \<and> I (Rows p) h'"
  proof (rule forM_upt_total)
    show "I 0 h" by (simp add: I_def descended_0 ps_def)
    show "0 \<le> Rows p" by simp
  next
    fix j hj
    assume "0 \<le> j" and j: "j < Rows p" and Ij: "I j hj"
    from Ij have m: "mods (addr p) h hj" and l: "length hj = length h"
      and cs: "cells hj (Data p) = descended eta bs ps gs (j * Cols p)"
      by (simp_all add: I_def)
    have pj: "okd hj p" using p m by (rule okd_mods)
    have gj: "okd hj g" using g m by (rule okd_mods)
    have gc: "cells hj (Data g) = gs" using cells_mods[OF g m dis] by (simp add: gs_def)
    from sgd_row_total[OF pj gj d dis j cs lp gc] obtain h' where
      run: "forM [0..<Cols p] (sgd_cell p g eta bs j) hj = Inr h'" and m': "mods (addr p) hj h'"
      and l': "length h' = length hj"
      and cs': "cells h' (Data p) = descended eta bs ps gs (Suc j * Cols p)" by blast
    have "mods (addr p) h h'" using mods_trans[OF m m'] by simp
    then show "\<exists>s'. forM [0..<Cols p] (sgd_cell p g eta bs j) hj = Inr s' \<and> I (Suc j) s'"
      using run l l' cs' by (simp add: I_def)
  qed
  then obtain h' where run: "forM [0..<Rows p] (\<lambda>j. forM [0..<Cols p] (sgd_cell p g eta bs j)) h = Inr h'"
    and m: "mods (addr p) h h'" and l: "length h' = length h"
    and cs: "cells h' (Data p) = descended eta bs ps gs (Rows p * Cols p)"
    by (auto simp: I_def)
  have caps: "Caps g = (Rows p, Cols p)" using g d by (simp add: Caps_def okd_def)
  have r: "sgd_descend p g eta bs h = Inr h'" by (simp add: sgd_descend_def caps run)
  have p': "okd h' p" using p m by (rule okd_mods)
  have "descended eta bs ps gs (Rows p * Cols p)
      = map (\<lambda>u. ps ! u - eta / of_int bs * gs ! u) [0..<Rows p * Cols p]"
    by (simp add: descended_def lp)
  then have "val h' p = \<lparr>nr = Rows p, nc = Cols p,
      el = map (\<lambda>u. ps ! u - eta / of_int bs * gs ! u) [0..<Rows p * Cols p]\<rparr>"
    using val_okd[OF p'] cs by simp
  also have "\<dots> = msub (val h p) (mscale (eta / of_int bs) (val h g))"
    using el_descend[OF lp lg, of "eta / of_int bs", symmetric] val_okd[OF p] val_okd[OF g] d
    by (simp add: ps_def gs_def)
  finally show ?thesis using r m l by blast
qed

subsection \<open>The gradient accumulators of a batch\<close>

lemma wf_sizes_mods:
  assumes "wf_sizes h n szs" and "mods {} h h'"
  shows "wf_sizes h' n szs"
proof -
  have ok: "okd h (Sizes n)" using assms(1) by (simp add: wf_sizes_def)
  have "val h' (Sizes n) = val h (Sizes n)" using ok assms(2) by (rule val_mods) simp
  then show ?thesis using assms(1) okd_mods[OF ok assms(2)] by (simp add: wf_sizes_def)
qed

lemma Sizes_At:
  assumes ws: "wf_sizes h n szs" and k: "k < length szs"
  shows "At (Sizes n) 0 k h = Inr (real (szs ! k))"
proof -
  have ok: "okd h (Sizes n)" and r: "0 < Rows (Sizes n)" and c: "k < Cols (Sizes n)"
    and e: "el (val h (Sizes n)) = map real szs"
    using ws k by (simp_all add: wf_sizes_def)
  have "cells h (Data (Sizes n)) = map real szs" using val_okd[OF ok] e by simp
  then show ?thesis using At_total[OF ok r c] k by simp
qed

lemma trunc_real [simp]: "trunc (real m) = int m"
  by (simp add: trunc_def)

lemma accsD:
  assumes "accs h base szs nB nW" and "i < length szs - 1"
  shows "addr (nW ! i) = {base + 2 * i}" "addr (nB ! i) = {base + 2 * i + 1}"
    "wf_grads h szs nB nW"
  using assms by (simp_all add: accs_def)

lemma accs_mods: "accs h base szs nB nW \<Longrightarrow> mods S h h' \<Longrightarrow> accs h' base szs nB nW"
  using wf_grads_mods by (auto simp: accs_def)

lemma sgd_alloc_total:
  assumes ws: "wf_sizes h n szs" and k: "k + 1 < length szs"
  shows "\<exists>w b h'. sgd_alloc n k (nB, nW, h) = Inr (nB[k := b], nW[k := w], h')
     \<and> mods {} h h' \<and> length h' = length h + 2
     \<and> okd h' w \<and> Rows w = szs ! k \<and> Cols w = szs ! (k + 1)
     \<and> val h' w = mzero (szs ! k) (szs ! (k + 1)) \<and> addr w = {length h}
     \<and> okd h' b \<and> Rows b = 1 \<and> Cols b = szs ! (k + 1)
     \<and> val h' b = mzero 1 (szs ! (k + 1)) \<and> addr b = {length h + 1}"
proof -
  have k0: "k < length szs" using k by simp
  have a1: "At (Sizes n) 0 k h = Inr (real (szs ! k))" using ws k0 by (rule Sizes_At)
  have a2: "At (Sizes n) 0 (k + 1) h = Inr (real (szs ! (k + 1)))" using ws k by (rule Sizes_At)
  have nn: "0 \<le> int (szs ! k)" "0 \<le> int (szs ! (k + 1))" by simp_all
  obtain w h1 where r1: "NewDense (int (szs ! k)) (int (szs ! (k + 1))) h = Inr (w, h1)"
    using NewDense_total[OF nn, of h] by blast
  note n1 = NewDense_wrote[OF r1]
  note f1 = wrote_fresh[OF n1(1)]
  have one: "(0::int) \<le> 1" by simp
  obtain b h2 where r2: "NewDense 1 (int (szs ! (k + 1))) h1 = Inr (b, h2)"
    using NewDense_total[OF one nn(2), of h1] by blast
  note n2 = NewDense_wrote[OF r2]
  note f2 = wrote_fresh[OF n2(1)]
  have l1: "length h1 = length h + 1" by (simp add: n1(3))
  have l2: "length h2 = length h + 2" by (simp add: n2(3) l1)
  have m: "mods {} h h2" using mods_trans[OF f1(1) f2(1)] by simp
  have okw: "okd h2 w" using f1(3) f2(1) by (rule okd_mods)
  have vw: "val h2 w = mzero (szs ! k) (szs ! (k + 1))"
    using val_mods[OF f1(3) f2(1)] f1(4) by simp
  have dw: "Rows w = szs ! k" "Cols w = szs ! (k + 1)" using f1(5,6) by (simp_all add: mzero_def)
  have db: "Rows b = 1" "Cols b = szs ! (k + 1)" using f2(5,6) by (simp_all add: mzero_def)
  have vb: "val h2 b = mzero 1 (szs ! (k + 1))" using f2(4) by simp
  have ab: "addr b = {length h + 1}" using n2(2) l1 by simp
  have run: "sgd_alloc n k (nB, nW, h) = Inr (nB[k := b], nW[k := w], h2)"
    by (simp only: sgd_alloc_def prod.case a1 a2 andThen_Inr trunc_real r1 r2)
  show ?thesis
    by (rule exI[of _ w], rule exI[of _ b], rule exI[of _ h2])
      (use run m l2 okw dw vw n1(2) f2(3) db vb ab in simp)
qed

lemma sgd_alloc_loop:
  assumes ws: "wf_sizes h n szs" and L: "length szs = Suc K"
  shows "\<exists>nB nW h'.
     forM [0..<K] (sgd_alloc n) (replicate K zeroDense, replicate K zeroDense, h) = Inr (nB, nW, h')
     \<and> mods {} h h' \<and> length h' = length h + 2 * K \<and> accs h' (length h) szs nB nW
     \<and> (\<forall>i<K. val h' (nW ! i) = mzero (szs ! i) (szs ! (i + 1))
            \<and> val h' (nB ! i) = mzero 1 (szs ! (i + 1)))"
proof -
  define I where "I = (\<lambda>(k::nat) (nB, nW, hk).
     mods {} h hk \<and> length hk = length h + 2 * k \<and> length nB = K \<and> length nW = K
     \<and> (\<forall>i<k. okd hk (nW ! i) \<and> Rows (nW ! i) = szs ! i \<and> Cols (nW ! i) = szs ! (i + 1)
            \<and> val hk (nW ! i) = mzero (szs ! i) (szs ! (i + 1))
            \<and> addr (nW ! i) = {length h + 2 * i}
            \<and> okd hk (nB ! i) \<and> Rows (nB ! i) = 1 \<and> Cols (nB ! i) = szs ! (i + 1)
            \<and> val hk (nB ! i) = mzero 1 (szs ! (i + 1))
            \<and> addr (nB ! i) = {length h + 2 * i + 1}))"
  have "\<exists>s'. forM [0..<K] (sgd_alloc n) (replicate K zeroDense, replicate K zeroDense, h) = Inr s'
      \<and> I K s'"
  proof (rule forM_upt_total)
    show "I 0 (replicate K zeroDense, replicate K zeroDense, h)" by (simp add: I_def)
    show "0 \<le> K" by simp
  next
    fix k s
    assume "0 \<le> k" and k: "k < K" and Ik: "I k s"
    obtain nB nW hk where s: "s = (nB, nW, hk)" by (cases s)
    from Ik have m: "mods {} h hk" and l: "length hk = length h + 2 * k"
      and lb: "length nB = K" and lw: "length nW = K"
      and old: "\<And>i. i < k \<Longrightarrow> okd hk (nW ! i) \<and> Rows (nW ! i) = szs ! i
            \<and> Cols (nW ! i) = szs ! (i + 1)
            \<and> val hk (nW ! i) = mzero (szs ! i) (szs ! (i + 1))
            \<and> addr (nW ! i) = {length h + 2 * i}
            \<and> okd hk (nB ! i) \<and> Rows (nB ! i) = 1 \<and> Cols (nB ! i) = szs ! (i + 1)
            \<and> val hk (nB ! i) = mzero 1 (szs ! (i + 1))
            \<and> addr (nB ! i) = {length h + 2 * i + 1}"
      by (simp_all add: I_def s)
    have wsk: "wf_sizes hk n szs" using ws m by (rule wf_sizes_mods)
    have k1: "k + 1 < length szs" using k L by simp
    from sgd_alloc_total[OF wsk k1, of nB nW] obtain w b h' where
      run: "sgd_alloc n k (nB, nW, hk) = Inr (nB[k := b], nW[k := w], h')"
      and m': "mods {} hk h'" and l': "length h' = length hk + 2"
      and w: "okd h' w" "Rows w = szs ! k" "Cols w = szs ! (k + 1)"
        "val h' w = mzero (szs ! k) (szs ! (k + 1))" "addr w = {length hk}"
      and b: "okd h' b" "Rows b = 1" "Cols b = szs ! (k + 1)"
        "val h' b = mzero 1 (szs ! (k + 1))" "addr b = {length hk + 1}"
      by blast
    have m0: "mods {} h h'" using mods_trans[OF m m'] by simp
    have new: "okd h' ((nW[k := w]) ! i) \<and> Rows ((nW[k := w]) ! i) = szs ! i
            \<and> Cols ((nW[k := w]) ! i) = szs ! (i + 1)
            \<and> val h' ((nW[k := w]) ! i) = mzero (szs ! i) (szs ! (i + 1))
            \<and> addr ((nW[k := w]) ! i) = {length h + 2 * i}
            \<and> okd h' ((nB[k := b]) ! i) \<and> Rows ((nB[k := b]) ! i) = 1
            \<and> Cols ((nB[k := b]) ! i) = szs ! (i + 1)
            \<and> val h' ((nB[k := b]) ! i) = mzero 1 (szs ! (i + 1))
            \<and> addr ((nB[k := b]) ! i) = {length h + 2 * i + 1}" if i: "i < Suc k" for i
    proof (cases "i = k")
      case True
      then show ?thesis using w b l k lw lb by simp
    next
      case False
      then have ik: "i < k" using i by simp
      have o: "okd hk (nW ! i)" "okd hk (nB ! i)" using old[OF ik] by simp_all
      have "okd h' (nW ! i)" "okd h' (nB ! i)" using o okd_mods[OF _ m'] by blast+
      moreover have "val h' (nW ! i) = val hk (nW ! i)" using o(1) m' by (rule val_mods) simp
      moreover have "val h' (nB ! i) = val hk (nB ! i)" using o(2) m' by (rule val_mods) simp
      ultimately show ?thesis using old[OF ik] False by simp
    qed
    show "\<exists>s'. sgd_alloc n k s = Inr s' \<and> I (Suc k) s'"
      unfolding s run
      by (rule exI[of _ "(nB[k := b], nW[k := w], h')"])
        (use m0 l l' lw lb new in \<open>simp add: I_def\<close>)
  qed
  then obtain nB nW h' where
    run: "forM [0..<K] (sgd_alloc n) (replicate K zeroDense, replicate K zeroDense, h)
       = Inr (nB, nW, h')"
    and m: "mods {} h h'" and l: "length h' = length h + 2 * K"
    and lb: "length nB = K" and lw: "length nW = K"
    and all: "\<And>i. i < K \<Longrightarrow> okd h' (nW ! i) \<and> Rows (nW ! i) = szs ! i
            \<and> Cols (nW ! i) = szs ! (i + 1)
            \<and> val h' (nW ! i) = mzero (szs ! i) (szs ! (i + 1))
            \<and> addr (nW ! i) = {length h + 2 * i}
            \<and> okd h' (nB ! i) \<and> Rows (nB ! i) = 1 \<and> Cols (nB ! i) = szs ! (i + 1)
            \<and> val h' (nB ! i) = mzero 1 (szs ! (i + 1))
            \<and> addr (nB ! i) = {length h + 2 * i + 1}"
    by (auto simp: I_def)
  have ac: "accs h' (length h) szs nB nW"
    unfolding accs_def wf_grads_def using all lb lw L by simp
  show ?thesis
    by (rule exI[of _ nB], rule exI[of _ nW], rule exI[of _ h'])
      (use run m l ac all in simp)
qed

subsection \<open>Adding the gradients of one example\<close>

lemma Add_inplace:
  assumes ok: "okd h m" and b: "okd h b" and d: "Rows b = Rows m" "Cols b = Cols m"
  shows "\<exists>h'. Add m (M m) (M b) h = Inr (m, h') \<and> wrote h m h' m (madd (val h m) (val h b))"
proof -
  have run: "Add m (M m) (M b) h = Inr (m, store h m (el (madd (val h m) (val h b))))"
    using d by (simp add: Add_def assign_same[OF ok refl refl])
  from Add_wrote[OF ok run] run show ?thesis by simp
qed

lemma loc_apart:
  assumes "loc N m" and "a < N"
  shows "addr m \<inter> {a} = {}"
  using assms by (auto simp: loc_def)

lemma loc_apart_range:
  assumes "loc N m" and "b \<le> N"
  shows "addr m \<inter> {a..<b} = {}"
  using assms by (auto simp: loc_def)

lemma sgd_add_total:
  assumes acc: "accs h base szs nB nW" and tmp: "wf_grads h szs tB tW"
    and lB: "locals N h tB" and lW: "locals N h tW" and N: "base + 2 * (length szs - 1) \<le> N"
    and k: "k < length szs - 1"
  shows "\<exists>h'. sgd_add tB tW k (nB, nW, h) = Inr (nB, nW, h')
     \<and> mods {base + 2 * k, base + 2 * k + 1} h h'
     \<and> val h' (nB ! k) = madd (val h (nB ! k)) (val h (tB ! k))
     \<and> val h' (nW ! k) = madd (val h (nW ! k)) (val h (tW ! k))"
proof -
  note g = wf_gradsD[OF accsD(3)[OF acc k] k]
  note t = wf_gradsD[OF tmp k]
  note a = accsD(1,2)[OF acc k]
  have dB: "Rows (tB ! k) = Rows (nB ! k)" "Cols (tB ! k) = Cols (nB ! k)"
    using g(2,3) t(2,3) by simp_all
  have dW: "Rows (tW ! k) = Rows (nW ! k)" "Cols (tW ! k) = Cols (nW ! k)"
    using g(5,6) t(5,6) by simp_all
  from Add_inplace[OF g(1) t(1) dB] obtain h1 where
    r1: "Add (nB ! k) (M (nB ! k)) (M (tB ! k)) h = Inr (nB ! k, h1)"
    and w1: "wrote h (nB ! k) h1 (nB ! k) (madd (val h (nB ! k)) (val h (tB ! k)))" by blast
  have x1: "addr (nW ! k) \<inter> addr (nB ! k) = {}" unfolding a by simp
  note o1 = wrote_other[OF w1 g(4) x1]
  have kW: "k < length tW" using t(8) k by simp
  have lt: "base + 2 * k + 1 < N" "base + 2 * k < N" using N k by simp_all
  have x2: "addr (tW ! k) \<inter> addr (nB ! k) = {}"
    unfolding a using locals_nth[OF lW kW] lt(1) by (intro loc_apart) simp_all
  note o2 = wrote_other[OF w1 t(4) x2]
  from Add_inplace[OF o1(1) o2(1) dW] obtain h2 where
    r2: "Add (nW ! k) (M (nW ! k)) (M (tW ! k)) h1 = Inr (nW ! k, h2)"
    and w2: "wrote h1 (nW ! k) h2 (nW ! k) (madd (val h1 (nW ! k)) (val h1 (tW ! k)))" by blast
  have x3: "addr (nB ! k) \<inter> addr (nW ! k) = {}" unfolding a by simp
  note o3 = wrote_other[OF w2 wroteD(1)[OF w1] x3]
  have run: "sgd_add tB tW k (nB, nW, h) = Inr (nB, nW, h2)"
    by (simp add: sgd_add_def r1 r2)
  have "mods (addr (nB ! k) \<union> addr (nW ! k)) h h2"
    using wroteD(5)[OF w1] wroteD(5)[OF w2] by (rule mods_trans)
  then have m: "mods {base + 2 * k, base + 2 * k + 1} h h2"
    unfolding a by (rule mods_mono) simp
  have vB: "val h2 (nB ! k) = madd (val h (nB ! k)) (val h (tB ! k))"
    using o3(2) wroteD(2)[OF w1] by simp
  have vW: "val h2 (nW ! k) = madd (val h (nW ! k)) (val h (tW ! k))"
    using wroteD(2)[OF w2] o1(2) o2(2) by simp
  show ?thesis using run m vB vW by blast
qed

lemma pair_range:
  "k < K \<Longrightarrow> {base + 2 * k, base + 2 * k + 1} \<subseteq> {base..<base + 2 * (K::nat)}"
  by auto

lemma sgd_add_loop:
  assumes acc: "accs h0 base szs nB nW" and tmp: "wf_grads h0 szs tB tW"
    and lB: "locals N h0 tB" and lW: "locals N h0 tW" and N: "base + 2 * K \<le> N"
    and L: "length szs = Suc K"
  shows "\<exists>h'. forM [0..<K] (sgd_add tB tW) (nB, nW, h0) = Inr (nB, nW, h')
     \<and> mods {base..<base + 2 * K} h0 h'
     \<and> (\<forall>i<K. val h' (nB ! i) = madd (val h0 (nB ! i)) (val h0 (tB ! i))
            \<and> val h' (nW ! i) = madd (val h0 (nW ! i)) (val h0 (tW ! i)))"
proof -
  define I where "I = (\<lambda>(k::nat) (nB', nW', hk).
     nB' = nB \<and> nW' = nW \<and> mods {base..<base + 2 * K} h0 hk
     \<and> (\<forall>i<K. val hk (nB ! i)
              = (if i < k then madd (val h0 (nB ! i)) (val h0 (tB ! i)) else val h0 (nB ! i))
            \<and> val hk (nW ! i)
              = (if i < k then madd (val h0 (nW ! i)) (val h0 (tW ! i)) else val h0 (nW ! i))))"
  have K1: "length szs - 1 = K" using L by simp
  have "\<exists>s'. forM [0..<K] (sgd_add tB tW) (nB, nW, h0) = Inr s' \<and> I K s'"
  proof (rule forM_upt_total)
    show "I 0 (nB, nW, h0)" by (simp add: I_def)
    show "0 \<le> K" by simp
  next
    fix k s
    assume "0 \<le> k" and k: "k < K" and Ik: "I k s"
    obtain nB' nW' hk where s: "s = (nB', nW', hk)" by (cases s)
    from Ik have s': "s = (nB, nW, hk)" and m: "mods {base..<base + 2 * K} h0 hk"
      and vs: "\<And>i. i < K \<Longrightarrow> val hk (nB ! i)
              = (if i < k then madd (val h0 (nB ! i)) (val h0 (tB ! i)) else val h0 (nB ! i))
            \<and> val hk (nW ! i)
              = (if i < k then madd (val h0 (nW ! i)) (val h0 (tW ! i)) else val h0 (nW ! i))"
      by (simp_all add: I_def s)
    have acck: "accs hk base szs nB nW" using acc m by (rule accs_mods)
    have tmpk: "wf_grads hk szs tB tW" using tmp m by (rule wf_grads_mods)
    have lBk: "locals N hk tB" using lB m by (rule locals_mods)
    have lWk: "locals N hk tW" using lW m by (rule locals_mods)
    have Nk: "base + 2 * (length szs - 1) \<le> N" using N K1 by simp
    have kk: "k < length szs - 1" using k K1 by simp
    from sgd_add_total[OF acck tmpk lBk lWk Nk kk] obtain h' where
      run: "sgd_add tB tW k (nB, nW, hk) = Inr (nB, nW, h')"
      and m': "mods {base + 2 * k, base + 2 * k + 1} hk h'"
      and vB: "val h' (nB ! k) = madd (val hk (nB ! k)) (val hk (tB ! k))"
      and vW: "val h' (nW ! k) = madd (val hk (nW ! k)) (val hk (tW ! k))" by blast
    note t = wf_gradsD[OF tmp kk]
    have kB: "k < length tB" and kW: "k < length tW" using t(7,8) kk by simp_all
    have tBk: "val hk (tB ! k) = val h0 (tB ! k)"
      using t(1) m by (rule val_mods) (use locals_nth[OF lB kB] N in \<open>intro loc_apart_range, simp_all\<close>)
    have tWk: "val hk (tW ! k) = val h0 (tW ! k)"
      using t(4) m by (rule val_mods) (use locals_nth[OF lW kW] N in \<open>intro loc_apart_range, simp_all\<close>)
    have m0: "mods {base..<base + 2 * K} h0 h'"
      using mods_trans[OF m mods_mono[OF m' pair_range[OF k]]] by simp
    have new: "val h' (nB ! i)
              = (if i < Suc k then madd (val h0 (nB ! i)) (val h0 (tB ! i)) else val h0 (nB ! i))
            \<and> val h' (nW ! i)
              = (if i < Suc k then madd (val h0 (nW ! i)) (val h0 (tW ! i)) else val h0 (nW ! i))"
      if i: "i < K" for i
    proof (cases "i = k")
      case True
      then show ?thesis using vB vW tBk tWk vs[OF k] by simp
    next
      case False
      have ii: "i < length szs - 1" using i K1 by simp
      note gi = wf_gradsD[OF accsD(3)[OF acck ii] ii]
      note ai = accsD(1,2)[OF acck ii]
      have "val h' (nB ! i) = val hk (nB ! i)"
        using gi(1) m' by (rule val_mods) (use False in \<open>simp add: ai\<close>)
      moreover have "val h' (nW ! i) = val hk (nW ! i)"
        using gi(4) m' by (rule val_mods) (use False in \<open>simp add: ai\<close>)
      ultimately show ?thesis using vs[OF i] False by (simp add: less_Suc_eq)
    qed
    show "\<exists>s'. sgd_add tB tW k s = Inr s' \<and> I (Suc k) s'"
      unfolding s' run
      by (rule exI[of _ "(nB, nW, h')"]) (use m0 new in \<open>simp add: I_def\<close>)
  qed
  then show ?thesis by (auto simp: I_def)
qed

subsection \<open>The examples of a batch\<close>

lemma sgd_example_total:
  assumes wf: "wf_net h n szs" and L: "length szs = Suc K"
    and m: "mods {} h hj" and acc: "accs hj (length h) szs nB nW"
    and len: "length h + 2 * K \<le> length hj"
    and ij: "i + j < length data" and ex: "data ! (i + j) = [x, y]"
    and x: "okd h x" "Rows x = 1" "Cols x = szs ! 0"
    and y: "okd h y" "Rows y = 1" "Cols y = szs ! (length szs - 1)"
  shows "\<exists>tB tW hj' h'. backpropQuadCost n (data ! (i + j)) eta hj = Inr ((tB, tW), hj')
     \<and> sgd_example n data eta K i j (nB, nW, hj) = Inr (nB, nW, h')
     \<and> mods {length h..<length h + 2 * K} hj h'
     \<and> (\<forall>k<K. val h' (nB ! k) = madd (val hj (nB ! k)) (val hj' (tB ! k))
            \<and> val h' (nW ! k) = madd (val hj (nW ! k)) (val hj' (tW ! k)))"
proof -
  have K1: "length szs - 1 = K" using L by simp
  have wfj: "wf_net hj n szs" using wf m by (rule wf_net_mods)
  have xj: "okd hj x" using x(1) m by (rule okd_mods)
  have yj: "okd hj y" using y(1) m by (rule okd_mods)
  from backprop_total[OF wfj xj x(2,3) yj y(2,3), of eta] obtain tB tW hj' where
    r1: "backpropQuadCost n [x, y] eta hj = Inr ((tB, tW), hj')"
    and m1: "mods {} hj hj'" and tmp: "wf_grads hj' szs tB tW" by blast
  note fr = backpropQuadCost_frame[OF r1]
  have acc': "accs hj' (length h) szs nB nW" using acc m1 by (rule accs_mods)
  from sgd_add_loop[OF acc' tmp fr(2,3) len L] obtain h' where
    r2: "forM [0..<K] (sgd_add tB tW) (nB, nW, hj') = Inr (nB, nW, h')"
    and m2: "mods {length h..<length h + 2 * K} hj' h'"
    and vs: "\<And>k. k < K \<Longrightarrow> val h' (nB ! k) = madd (val hj' (nB ! k)) (val hj' (tB ! k))
            \<and> val h' (nW ! k) = madd (val hj' (nW ! k)) (val hj' (tW ! k))" by blast
  have run: "sgd_example n data eta K i j (nB, nW, hj) = Inr (nB, nW, h')"
    using ij by (simp add: sgd_example_def index_def ex r1 r2)
  have mm: "mods {length h..<length h + 2 * K} hj h'"
    using mods_trans[OF m1 m2] by simp
  have new: "val h' (nB ! k) = madd (val hj (nB ! k)) (val hj' (tB ! k))
            \<and> val h' (nW ! k) = madd (val hj (nW ! k)) (val hj' (tW ! k))" if k: "k < K" for k
  proof -
    have kk: "k < length szs - 1" using k K1 by simp
    note g = wf_gradsD[OF accsD(3)[OF acc kk] kk]
    have "val hj' (nB ! k) = val hj (nB ! k)" using g(1) m1 by (rule val_mods) simp
    moreover have "val hj' (nW ! k) = val hj (nW ! k)" using g(4) m1 by (rule val_mods) simp
    ultimately show ?thesis using vs[OF k] by simp
  qed
  show ?thesis
    by (rule exI[of _ tB], rule exI[of _ tW], rule exI[of _ hj'], rule exI[of _ h'])
      (use r1 run mm new ex in simp)
qed

lemma example_runs_snoc:
  assumes "example_runs n es eta h runs" and "prefix h hj"
    and "backpropQuadCost n e eta hj = Inr g"
  shows "example_runs n (es @ [e]) eta h (runs @ [(hj, g)])"
  unfolding example_runs_def
proof (intro conjI allI impI)
  show "length (runs @ [(hj, g)]) = length (es @ [e])"
    using assms(1) by (simp add: example_runs_def)
next
  fix j
  assume j: "j < length (es @ [e])"
  have l: "length runs = length es" using assms(1) by (simp add: example_runs_def)
  show "prefix h (fst ((runs @ [(hj, g)]) ! j))"
  proof (cases "j < length es")
    case True
    then show ?thesis using assms(1) l by (simp add: example_runs_def nth_append)
  next
    case False
    then have "j = length es" using j by simp
    then show ?thesis using assms(2) l by (simp add: nth_append)
  qed
  show "backpropQuadCost n ((es @ [e]) ! j) eta (fst ((runs @ [(hj, g)]) ! j))
          = Inr (snd ((runs @ [(hj, g)]) ! j))"
  proof (cases "j < length es")
    case True
    then show ?thesis using assms(1) l by (simp add: example_runs_def nth_append)
  next
    case False
    then have "j = length es" using j by simp
    then show ?thesis using assms(3) l by (simp add: nth_append)
  qed
qed

lemma msum_snoc: "msum r c (Gs @ [G]) = madd (msum r c Gs) G"
  by (simp add: msum_def)

lemma msum_Nil: "msum r c [] = mzero r c"
  by (simp add: msum_def)

lemma range_above: "\<forall>a\<in>{length h..<b}. length (h::heap) \<le> a"
  by simp

lemma sgd_examples_loop:
  assumes wf: "wf_net h n szs" and L: "length szs = Suc K"
    and m1: "mods {} h h1" and acc: "accs h1 (length h) szs nB nW"
    and len: "length h + 2 * K \<le> length h1"
    and zero: "\<forall>k<K. val h1 (nW ! k) = mzero (szs ! k) (szs ! (k + 1))
                  \<and> val h1 (nB ! k) = mzero 1 (szs ! (k + 1))"
    and ex: "\<forall>j<J. i + j < length data \<and> (\<exists>x y. data ! (i + j) = [x, y]
              \<and> okd h x \<and> Rows x = 1 \<and> Cols x = szs ! 0
              \<and> okd h y \<and> Rows y = 1 \<and> Cols y = szs ! (length szs - 1))"
  shows "\<exists>h2 runs. forM [0..<J] (sgd_example n data eta K i) (nB, nW, h1) = Inr (nB, nW, h2)
     \<and> mods {length h..<length h + 2 * K} h1 h2
     \<and> length runs = J \<and> example_runs n (map (\<lambda>j. data ! (i + j)) [0..<J]) eta h runs
     \<and> (\<forall>k<K. val h2 (nW ! k) = msum (szs ! k) (szs ! (k + 1)) (map (gradW k) runs)
            \<and> val h2 (nB ! k) = msum 1 (szs ! (k + 1)) (map (gradB k) runs))"
proof -
  define I where "I = (\<lambda>(j::nat) (nB', nW', hj).
     nB' = nB \<and> nW' = nW \<and> mods {length h..<length h + 2 * K} h1 hj
     \<and> (\<exists>runs. length runs = j \<and> example_runs n (map (\<lambda>j. data ! (i + j)) [0..<j]) eta h runs
          \<and> (\<forall>k<K. val hj (nW ! k) = msum (szs ! k) (szs ! (k + 1)) (map (gradW k) runs)
                 \<and> val hj (nB ! k) = msum 1 (szs ! (k + 1)) (map (gradB k) runs))))"
  have "\<exists>s'. forM [0..<J] (sgd_example n data eta K i) (nB, nW, h1) = Inr s' \<and> I J s'"
  proof (rule forM_upt_total)
    have "example_runs n (map (\<lambda>j. data ! (i + j)) [0..<0]) eta h []"
      by (simp add: example_runs_def)
    then show "I 0 (nB, nW, h1)"
      unfolding I_def using zero by (simp add: msum_Nil)
    show "0 \<le> J" by simp
  next
    fix j s
    assume "0 \<le> j" and j: "j < J" and Ij: "I j s"
    obtain nB' nW' hj where s: "s = (nB', nW', hj)" by (cases s)
    from Ij obtain runs where s': "s = (nB, nW, hj)"
      and m: "mods {length h..<length h + 2 * K} h1 hj"
      and lr: "length runs = j"
      and br: "example_runs n (map (\<lambda>j. data ! (i + j)) [0..<j]) eta h runs"
      and vs: "\<And>k. k < K \<Longrightarrow> val hj (nW ! k) = msum (szs ! k) (szs ! (k + 1)) (map (gradW k) runs)
                 \<and> val hj (nB ! k) = msum 1 (szs ! (k + 1)) (map (gradB k) runs)"
      unfolding I_def s by auto
    have m0: "mods {} h hj" using m range_above m1 by (rule mods_above)
    have accj: "accs hj (length h) szs nB nW" using acc m by (rule accs_mods)
    have lenj: "length h + 2 * K \<le> length hj" using len mods_length[OF m] by simp
    from ex j obtain x y where ij: "i + j < length data" and e: "data ! (i + j) = [x, y]"
      and x: "okd h x" "Rows x = 1" "Cols x = szs ! 0"
      and y: "okd h y" "Rows y = 1" "Cols y = szs ! (length szs - 1)" by blast
    from sgd_example_total[OF wf L m0 accj lenj ij e x y, of eta] obtain tB tW hj' h' where
      r1: "backpropQuadCost n (data ! (i + j)) eta hj = Inr ((tB, tW), hj')"
      and run: "sgd_example n data eta K i j (nB, nW, hj) = Inr (nB, nW, h')"
      and m': "mods {length h..<length h + 2 * K} hj h'"
      and vs': "\<And>k. k < K \<Longrightarrow> val h' (nB ! k) = madd (val hj (nB ! k)) (val hj' (tB ! k))
            \<and> val h' (nW ! k) = madd (val hj (nW ! k)) (val hj' (tW ! k))" by blast
    define runs' where "runs' = runs @ [(hj, ((tB, tW), hj'))]"
    have p: "prefix h hj" using m0 by (simp add: mods_empty_prefix)
    have "example_runs n (map (\<lambda>j. data ! (i + j)) [0..<j] @ [data ! (i + j)]) eta h runs'"
      unfolding runs'_def using br p r1 by (rule example_runs_snoc)
    then have br': "example_runs n (map (\<lambda>j. data ! (i + j)) [0..<Suc j]) eta h runs'" by simp
    have lr': "length runs' = Suc j" by (simp add: runs'_def lr)
    have mm: "mods {length h..<length h + 2 * K} h1 h'" using mods_trans[OF m m'] by simp
    have new: "val h' (nW ! k) = msum (szs ! k) (szs ! (k + 1)) (map (gradW k) runs')
                 \<and> val h' (nB ! k) = msum 1 (szs ! (k + 1)) (map (gradB k) runs')"
      if k: "k < K" for k
      using vs[OF k] vs'[OF k] by (simp add: runs'_def msum_snoc gradW_def gradB_def)
    have "I (Suc j) (nB, nW, h')"
      unfolding I_def using mm lr' br' new by auto
    then show "\<exists>s'. sgd_example n data eta K i j s = Inr s' \<and> I (Suc j) s'"
      unfolding s' run by blast
  qed
  then show ?thesis unfolding I_def by auto
qed

subsection \<open>The update of the parameters\<close>

lemma low_apart:
  assumes "\<forall>a\<in>S. a < (base::nat)" and "base \<le> c"
  shows "{c} \<inter> S = {}"
  using assms by force

lemma sgd_update_total:
  assumes wf: "wf_net hi n szs" and ap: "params_apart n" and acc: "accs hi base szs nB nW"
    and low: "\<forall>k<length szs - 1. (\<forall>a\<in>addr (Weights n ! k). a < base)
                \<and> (\<forall>a\<in>addr (Biases n ! k). a < base)"
    and k: "k < length szs - 1"
  shows "\<exists>h'. sgd_update n nB nW eta bs k hi = Inr h'
     \<and> mods (addr (Biases n ! k) \<union> addr (Weights n ! k)) hi h'
     \<and> val h' (Biases n ! k)
         = msub (val hi (Biases n ! k)) (mscale (eta / of_int bs) (val hi (nB ! k)))
     \<and> val h' (Weights n ! k)
         = msub (val hi (Weights n ! k)) (mscale (eta / of_int bs) (val hi (nW ! k)))"
proof -
  note p = wf_netD[OF wf k]
  note g = wf_gradsD[OF accsD(3)[OF acc k] k]
  note a = accsD(1,2)[OF acc k]
  have lw: "length (Weights n) = length szs - 1" and lb: "length (Biases n) = length szs - 1"
    using wf by (simp_all add: wf_net_def)
  have lowW: "\<forall>a\<in>addr (Weights n ! k). a < base" and lowB: "\<forall>a\<in>addr (Biases n ! k). a < base"
    using low k by simp_all
  have WB: "addr (Weights n ! k) \<inter> addr (Biases n ! k) = {}"
    using ap k lw lb by (simp add: params_apart_def)
  have dB: "Rows (nB ! k) = Rows (Biases n ! k)" "Cols (nB ! k) = Cols (Biases n ! k)"
    using p g by simp_all
  have dW: "Rows (nW ! k) = Rows (Weights n ! k)" "Cols (nW ! k) = Cols (Weights n ! k)"
    using p g by simp_all
  have x1: "addr (nB ! k) \<inter> addr (Biases n ! k) = {}"
    unfolding a using lowB by (rule low_apart) simp
  from sgd_descend_total[OF p(4) g(1) dB x1, of eta bs] obtain h1 where
    r1: "sgd_descend (Biases n ! k) (nB ! k) eta bs hi = Inr h1"
    and m1: "mods (addr (Biases n ! k)) hi h1"
    and v1: "val h1 (Biases n ! k)
         = msub (val hi (Biases n ! k)) (mscale (eta / of_int bs) (val hi (nB ! k)))" by blast
  have okW: "okd h1 (Weights n ! k)" using p(1) m1 by (rule okd_mods)
  have okG: "okd h1 (nW ! k)" using g(4) m1 by (rule okd_mods)
  have vW: "val h1 (Weights n ! k) = val hi (Weights n ! k)"
    using p(1) m1 WB by (rule val_mods)
  have x2: "addr (nW ! k) \<inter> addr (Biases n ! k) = {}"
    unfolding a using lowB by (rule low_apart) simp
  have vG: "val h1 (nW ! k) = val hi (nW ! k)" using g(4) m1 x2 by (rule val_mods)
  have x3: "addr (nW ! k) \<inter> addr (Weights n ! k) = {}"
    unfolding a using lowW by (rule low_apart) simp
  from sgd_descend_total[OF okW okG dW x3, of eta bs] obtain h2 where
    r2: "sgd_descend (Weights n ! k) (nW ! k) eta bs h1 = Inr h2"
    and m2: "mods (addr (Weights n ! k)) h1 h2"
    and v2: "val h2 (Weights n ! k)
         = msub (val h1 (Weights n ! k)) (mscale (eta / of_int bs) (val h1 (nW ! k)))" by blast
  have BW: "addr (Biases n ! k) \<inter> addr (Weights n ! k) = {}" using WB by blast
  have vB: "val h2 (Biases n ! k) = val h1 (Biases n ! k)"
    using okd_mods[OF p(4) m1] m2 BW by (rule val_mods)
  have run: "sgd_update n nB nW eta bs k hi = Inr h2"
    using k lw lb by (simp add: sgd_update_def index_def r1 r2)
  have m: "mods (addr (Biases n ! k) \<union> addr (Weights n ! k)) hi h2"
    using m1 m2 by (rule mods_trans)
  show ?thesis using run m vB v1 v2 vW vG by simp
qed

lemma sgd_update_loop:
  assumes wf: "wf_net h2 n szs" and ap: "params_apart n" and acc: "accs h2 base szs nB nW"
    and low: "\<forall>k<length szs - 1. (\<forall>a\<in>addr (Weights n ! k). a < base)
                \<and> (\<forall>a\<in>addr (Biases n ! k). a < base)"
    and L: "length szs = Suc K"
  shows "\<exists>h'. forM [0..<K] (sgd_update n nB nW eta bs) h2 = Inr h' \<and> mods (paddr n) h2 h'
     \<and> (\<forall>k<K. val h' (Biases n ! k)
                 = msub (val h2 (Biases n ! k)) (mscale (eta / of_int bs) (val h2 (nB ! k)))
            \<and> val h' (Weights n ! k)
                 = msub (val h2 (Weights n ! k)) (mscale (eta / of_int bs) (val h2 (nW ! k))))"
proof -
  define I where "I = (\<lambda>(k::nat) hk. mods {..<base} h2 hk \<and> mods (paddr n) h2 hk
     \<and> (\<forall>i<K. val hk (Biases n ! i)
                 = (if i < k then msub (val h2 (Biases n ! i))
                                   (mscale (eta / of_int bs) (val h2 (nB ! i)))
                    else val h2 (Biases n ! i))
            \<and> val hk (Weights n ! i)
                 = (if i < k then msub (val h2 (Weights n ! i))
                                   (mscale (eta / of_int bs) (val h2 (nW ! i)))
                    else val h2 (Weights n ! i))))"
  have K1: "length szs - 1 = K" using L by simp
  have lw: "length (Weights n) = K" and lb: "length (Biases n) = K"
    using wf K1 by (simp_all add: wf_net_def)
  have "\<exists>h'. forM [0..<K] (sgd_update n nB nW eta bs) h2 = Inr h' \<and> I K h'"
  proof (rule forM_upt_total)
    show "I 0 h2" by (simp add: I_def)
    show "0 \<le> K" by simp
  next
    fix k hk
    assume "0 \<le> k" and k: "k < K" and Ik: "I k hk"
    from Ik have m: "mods {..<base} h2 hk" and mp: "mods (paddr n) h2 hk"
      and vs: "\<And>i. i < K \<Longrightarrow> val hk (Biases n ! i)
                 = (if i < k then msub (val h2 (Biases n ! i))
                                   (mscale (eta / of_int bs) (val h2 (nB ! i)))
                    else val h2 (Biases n ! i))
            \<and> val hk (Weights n ! i)
                 = (if i < k then msub (val h2 (Weights n ! i))
                                   (mscale (eta / of_int bs) (val h2 (nW ! i)))
                    else val h2 (Weights n ! i))"
      by (simp_all add: I_def)
    have wfk: "wf_net hk n szs" using wf m by (rule wf_net_mods)
    have acck: "accs hk base szs nB nW" using acc m by (rule accs_mods)
    have kk: "k < length szs - 1" using k K1 by simp
    from sgd_update_total[OF wfk ap acck low kk, of eta bs] obtain h' where
      run: "sgd_update n nB nW eta bs k hk = Inr h'"
      and m': "mods (addr (Biases n ! k) \<union> addr (Weights n ! k)) hk h'"
      and vB: "val h' (Biases n ! k)
         = msub (val hk (Biases n ! k)) (mscale (eta / of_int bs) (val hk (nB ! k)))"
      and vW: "val h' (Weights n ! k)
         = msub (val hk (Weights n ! k)) (mscale (eta / of_int bs) (val hk (nW ! k)))" by blast
    note g = wf_gradsD[OF accsD(3)[OF acc kk] kk]
    note a = accsD(1,2)[OF acc kk]
    have gB: "val hk (nB ! k) = val h2 (nB ! k)"
      using g(1) m by (rule val_mods) (simp add: a)
    have gW: "val hk (nW ! k) = val h2 (nW ! k)"
      using g(4) m by (rule val_mods) (simp add: a)
    have sub: "addr (Biases n ! k) \<union> addr (Weights n ! k) \<subseteq> {..<base}"
      using low kk by auto
    have m0: "mods {..<base} h2 h'" using mods_trans[OF m mods_mono[OF m' sub]] by simp
    have "Weights n ! k \<in> set (Weights n)" "Biases n ! k \<in> set (Biases n)"
      using k lw lb by simp_all
    then have subp: "addr (Biases n ! k) \<union> addr (Weights n ! k) \<subseteq> paddr n"
      unfolding paddr_def by blast
    have mp0: "mods (paddr n) h2 h'" using mods_trans[OF mp mods_mono[OF m' subp]] by simp
    have new: "val h' (Biases n ! i)
                 = (if i < Suc k then msub (val h2 (Biases n ! i))
                                   (mscale (eta / of_int bs) (val h2 (nB ! i)))
                    else val h2 (Biases n ! i))
            \<and> val h' (Weights n ! i)
                 = (if i < Suc k then msub (val h2 (Weights n ! i))
                                   (mscale (eta / of_int bs) (val h2 (nW ! i)))
                    else val h2 (Weights n ! i))" if i: "i < K" for i
    proof (cases "i = k")
      case True
      then show ?thesis using vB vW gB gW vs[OF k] by simp
    next
      case False
      have ii: "i < length szs - 1" using i K1 by simp
      note p = wf_netD[OF wfk ii]
      have BB: "addr (Biases n ! i) \<inter> addr (Biases n ! k) = {}"
        and BW: "addr (Weights n ! k) \<inter> addr (Biases n ! i) = {}"
        and WW: "addr (Weights n ! i) \<inter> addr (Weights n ! k) = {}"
        and WB: "addr (Weights n ! i) \<inter> addr (Biases n ! k) = {}"
        using ap i k lw lb False by (simp_all add: params_apart_def)
      have xB: "addr (Biases n ! i) \<inter> (addr (Biases n ! k) \<union> addr (Weights n ! k)) = {}"
        using BB BW by blast
      have xW: "addr (Weights n ! i) \<inter> (addr (Biases n ! k) \<union> addr (Weights n ! k)) = {}"
        using WW WB by blast
      have "val h' (Biases n ! i) = val hk (Biases n ! i)" using p(4) m' xB by (rule val_mods)
      moreover have "val h' (Weights n ! i) = val hk (Weights n ! i)"
        using p(1) m' xW by (rule val_mods)
      ultimately show ?thesis using vs[OF i] False by (simp add: less_Suc_eq)
    qed
    show "\<exists>s'. sgd_update n nB nW eta bs k hk = Inr s' \<and> I (Suc k) s'"
      unfolding run by (rule exI[of _ h']) (use m0 mp0 new in \<open>simp add: I_def\<close>)
  qed
  then show ?thesis by (auto simp: I_def)
qed

subsection \<open>One batch\<close>

lemma sgd_batch_total:
  assumes wf: "wf_net h n szs" and ws: "wf_sizes h n szs" and ap: "params_apart n"
    and bs': "bs' = (if int (length data) - int i * bs < bs
                    then int (length data) - int i * bs else bs)"
    and ex: "\<forall>j<nat bs'. i + j < length data \<and> (\<exists>x y. data ! (i + j) = [x, y]
              \<and> okd h x \<and> Rows x = 1 \<and> Cols x = szs ! 0
              \<and> okd h y \<and> Rows y = 1 \<and> Cols y = szs ! (length szs - 1))"
  shows "\<exists>h' runs. sgd_batch n data eta (length szs - 1) i (bs, h) = Inr (bs', h')
     \<and> mods (paddr n) h h'
     \<and> length runs = nat bs'
     \<and> example_runs n (map (\<lambda>j. data ! (i + j)) [0..<nat bs']) eta h runs
     \<and> (\<forall>k<length szs - 1.
          val h' (Weights n ! k)
            = msub (val h (Weights n ! k))
                (mscale (eta / of_int bs') (msum (szs ! k) (szs ! (k + 1)) (map (gradW k) runs)))
          \<and> val h' (Biases n ! k)
            = msub (val h (Biases n ! k))
                (mscale (eta / of_int bs') (msum 1 (szs ! (k + 1)) (map (gradB k) runs))))"
proof -
  obtain K where L: "length szs = Suc K" using wf by (cases "length szs") (auto simp: wf_net_def)
  have K1: "length szs - 1 = K" using L by simp
  from sgd_alloc_loop[OF ws L] obtain nB nW h1 where
    r1: "forM [0..<K] (sgd_alloc n) (replicate K zeroDense, replicate K zeroDense, h)
          = Inr (nB, nW, h1)"
    and m1: "mods {} h h1" and l1: "length h1 = length h + 2 * K"
    and acc1: "accs h1 (length h) szs nB nW"
    and zero: "\<forall>i<K. val h1 (nW ! i) = mzero (szs ! i) (szs ! (i + 1))
            \<and> val h1 (nB ! i) = mzero 1 (szs ! (i + 1))" by blast
  have len: "length h + 2 * K \<le> length h1" using l1 by simp
  from sgd_examples_loop[OF wf L m1 acc1 len zero ex, of eta] obtain h2 runs where
    r2: "forM [0..<nat bs'] (sgd_example n data eta K i) (nB, nW, h1) = Inr (nB, nW, h2)"
    and m2: "mods {length h..<length h + 2 * K} h1 h2"
    and lr: "length runs = nat bs'"
    and br: "example_runs n (map (\<lambda>j. data ! (i + j)) [0..<nat bs']) eta h runs"
    and sums: "\<And>k. k < K \<Longrightarrow> val h2 (nW ! k) = msum (szs ! k) (szs ! (k + 1)) (map (gradW k) runs)
            \<and> val h2 (nB ! k) = msum 1 (szs ! (k + 1)) (map (gradB k) runs)" by blast
  have m02: "mods {} h h2" using m2 range_above m1 by (rule mods_above)
  have wf2: "wf_net h2 n szs" using wf m02 by (rule wf_net_mods)
  have acc2: "accs h2 (length h) szs nB nW" using acc1 m2 by (rule accs_mods)
  have low: "\<forall>k<length szs - 1. (\<forall>a\<in>addr (Weights n ! k). a < length h)
                \<and> (\<forall>a\<in>addr (Biases n ! k). a < length h)"
    using wf_netD(1,4)[OF wf] addr_lt by blast
  from sgd_update_loop[OF wf2 ap acc2 low L, of eta bs'] obtain h3 where
    r3: "forM [0..<K] (sgd_update n nB nW eta bs') h2 = Inr h3"
    and m3: "mods (paddr n) h2 h3"
    and upd: "\<And>k. k < K \<Longrightarrow> val h3 (Biases n ! k)
                 = msub (val h2 (Biases n ! k)) (mscale (eta / of_int bs') (val h2 (nB ! k)))
            \<and> val h3 (Weights n ! k)
                 = msub (val h2 (Weights n ! k)) (mscale (eta / of_int bs') (val h2 (nW ! k)))"
    by blast
  have run: "sgd_batch n data eta (length szs - 1) i (bs, h) = Inr (bs', h3)"
    unfolding sgd_batch_def K1 prod.case r1 andThen_Inr Let_def bs'[symmetric] r2 r3 ..
  have new: "val h3 (Weights n ! k)
            = msub (val h (Weights n ! k))
                (mscale (eta / of_int bs') (msum (szs ! k) (szs ! (k + 1)) (map (gradW k) runs)))
          \<and> val h3 (Biases n ! k)
            = msub (val h (Biases n ! k))
                (mscale (eta / of_int bs') (msum 1 (szs ! (k + 1)) (map (gradB k) runs)))"
    if k: "k < length szs - 1" for k
  proof -
    have kK: "k < K" using k K1 by simp
    note p = wf_netD[OF wf k]
    have "val h2 (Weights n ! k) = val h (Weights n ! k)" using p(1) m02 by (rule val_mods) simp
    moreover have "val h2 (Biases n ! k) = val h (Biases n ! k)"
      using p(4) m02 by (rule val_mods) simp
    ultimately show ?thesis using upd[OF kK] sums[OF kK] by simp
  qed
  have m03: "mods (paddr n) h h3" using mods_trans[OF m02 m3] by simp
  show ?thesis
    by (rule exI[of _ h3], rule exI[of _ runs]) (use run m03 lr br new in simp)
qed

lemma wf_sizes3: "wf_sizes h3 net3 [1, 2, 1]"
  by (simp add: wf_sizes_def net3_def h3_def okd_hdr_iff val_hdr)

lemma params_apart3: "params_apart net3"
  by (simp add: params_apart_def net3_def addr_hdr less_Suc_eq numeral_2_eq_2 all_conj_distrib)

subsection \<open>The accumulation phase of a batch writes only arrays that it allocated\<close>

lemma sgd_alloc_frame:
  assumes run: "sgd_alloc n k (nB, nW, h) = Inr (nB', nW', h')"
    and m: "mods {} h0 h" and l: "locals (length h0) h nB" "locals (length h0) h nW"
  shows "mods {} h0 h'" "locals (length h0) h' nB'" "locals (length h0) h' nW'"
    "length nB' = length nB" "length nW' = length nW"
proof -
  from run obtain x y w h1 b where
    r1: "NewDense (trunc x) (trunc y) h = Inr (w, h1)" and
    r2: "NewDense 1 (trunc y) h1 = Inr (b, h')" and
    res: "nB' = nB[k := b]" "nW' = nW[k := w]"
    by (auto simp: sgd_alloc_def andThen_eq_Inr)
  note w1 = NewDense_wrote(1)[OF r1]
  note s1 = wrote_step[OF w1 loc_zeroDense m]
  note w2 = NewDense_wrote(1)[OF r2]
  note s2 = wrote_step[OF w2 loc_zeroDense s1(1)]
  show "mods {} h0 h'" by (rule s2(1))
  show "locals (length h0) h' nB'" unfolding res
    using wrote_locals[OF w2 wrote_locals[OF w1 l(1)]] s2(3) s2(2) by (rule locals_update)
  have "okd h' w" using s1(3) wroteD(5)[OF w2] by (rule okd_mods)
  with wrote_locals[OF w2 wrote_locals[OF w1 l(2)]]
  show "locals (length h0) h' nW'" unfolding res using s1(2) by (rule locals_update)
  show "length nB' = length nB" "length nW' = length nW" by (simp_all add: res)
qed

lemma sgd_add_frame:
  assumes run: "sgd_add tB tW k (nB, nW, h) = Inr (nB', nW', h')"
    and m: "mods {} h0 h" and l: "locals (length h0) h nB" "locals (length h0) h nW"
    and k: "k < length nB" "k < length nW"
  shows "mods {} h0 h'" "locals (length h0) h' nB'" "locals (length h0) h' nW'"
    "length nB' = length nB" "length nW' = length nW"
proof -
  from run obtain b h1 w where
    r1: "Add (nB ! k) (M (nB ! k)) (M (tB ! k)) h = Inr (b, h1)" and
    r2: "Add (nW ! k) (M (nW ! k)) (M (tW ! k)) h1 = Inr (w, h')" and
    res: "nB' = nB[k := b]" "nW' = nW[k := w]"
    by (auto simp: sgd_add_def andThen_eq_Inr)
  note rb = locals_nth[OF l(1) k(1)]
  note w1 = Add_wrote[OF conjunct1[OF rb] r1]
  note s1 = wrote_step[OF w1 conjunct2[OF rb] m]
  note rw = locals_nth[OF wrote_locals[OF w1 l(2)] k(2)]
  note w2 = Add_wrote[OF conjunct1[OF rw] r2]
  note s2 = wrote_step[OF w2 conjunct2[OF rw] s1(1)]
  show "mods {} h0 h'" by (rule s2(1))
  have "okd h' b" using s1(3) wroteD(5)[OF w2] by (rule okd_mods)
  with wrote_locals[OF w2 wrote_locals[OF w1 l(1)]]
  show "locals (length h0) h' nB'" unfolding res using s1(2) by (rule locals_update)
  show "locals (length h0) h' nW'" unfolding res
    using wrote_locals[OF w2 wrote_locals[OF w1 l(2)]] s2(3) s2(2) by (rule locals_update)
  show "length nB' = length nB" "length nW' = length nW" by (simp_all add: res)
qed

lemma sgd_example_frame:
  assumes run: "sgd_example n data eta sz i j (nB, nW, h) = Inr (nB', nW', h')"
    and m: "mods {} h0 h" and l: "locals (length h0) h nB" "locals (length h0) h nW"
    and len: "length nB = sz" "length nW = sz"
  shows "mods {} h0 h'" "locals (length h0) h' nB'" "locals (length h0) h' nW'"
    "length nB' = sz" "length nW' = sz"
proof -
  from run obtain ex tB tW h1 where
    r1: "backpropQuadCost n ex eta h = Inr ((tB, tW), h1)" and
    r2: "forM [0..<sz] (sgd_add tB tW) (nB, nW, h1) = Inr (nB', nW', h')"
    by (auto simp: sgd_example_def andThen_eq_Inr)
  note f = backpropQuadCost_frame(1)[OF r1]
  have m1: "mods {} h0 h1" using mods_trans[OF m f] by simp
  define P where "P = (\<lambda>(b, w, hk). mods {} h0 hk \<and> locals (length h0) hk b
     \<and> locals (length h0) hk w \<and> length b = sz \<and> length w = sz)"
  have "P (nB', nW', h')"
  proof (rule forM_inv[OF r2])
    show "P (nB, nW, h1)"
      using m1 locals_mods[OF l(1) f] locals_mods[OF l(2) f] len by (simp add: P_def)
  next
    fix k s s'
    assume k: "k \<in> set [0..<sz]" and Ps: "P s" and step: "sgd_add tB tW k s = Inr s'"
    obtain b w hk where s: "s = (b, w, hk)" by (cases s)
    obtain b' w' hk' where s': "s' = (b', w', hk')" by (cases s')
    from Ps have p: "mods {} h0 hk" "locals (length h0) hk b" "locals (length h0) hk w"
      "length b = sz" "length w = sz" by (simp_all add: P_def s)
    have kb: "k < length b" "k < length w" using k p(4,5) by simp_all
    from sgd_add_frame[OF step[unfolded s s'] p(1,2,3) kb] p(4,5)
    show "P s'" by (simp add: P_def s')
  qed
  then show "mods {} h0 h'" "locals (length h0) h' nB'" "locals (length h0) h' nW'"
    "length nB' = sz" "length nW' = sz" by (simp_all add: P_def)
qed

lemma sgd_accumulate_frame:
  assumes r1: "forM [0..<sz] (sgd_alloc n) (replicate sz zeroDense, replicate sz zeroDense, h)
                = Inr (nB, nW, h1)"
    and r2: "forM js (sgd_example n data eta sz i) (nB, nW, h1) = Inr (nB', nW', h2)"
  shows "mods {} h h2"
proof -
  define P where "P = (\<lambda>(b, w, hk). mods {} h hk \<and> locals (length h) hk b
     \<and> locals (length h) hk w \<and> length b = sz \<and> length w = sz)"
  have P1: "P (nB, nW, h1)"
  proof (rule forM_inv[OF r1])
    show "P (replicate sz zeroDense, replicate sz zeroDense, h)" by (simp add: P_def)
  next
    fix k s s'
    assume "k \<in> set [0..<sz]" and Ps: "P s" and step: "sgd_alloc n k s = Inr s'"
    obtain b w hk where s: "s = (b, w, hk)" by (cases s)
    obtain b' w' hk' where s': "s' = (b', w', hk')" by (cases s')
    from Ps have p: "mods {} h hk" "locals (length h) hk b" "locals (length h) hk w"
      "length b = sz" "length w = sz" by (simp_all add: P_def s)
    from sgd_alloc_frame[OF step[unfolded s s'] p(1,2,3)] p(4,5)
    show "P s'" by (simp add: P_def s')
  qed
  have "P (nB', nW', h2)"
  proof (rule forM_inv[OF r2])
    show "P (nB, nW, h1)" by (rule P1)
  next
    fix j s s'
    assume "j \<in> set js" and Ps: "P s" and step: "sgd_example n data eta sz i j s = Inr s'"
    obtain b w hk where s: "s = (b, w, hk)" by (cases s)
    obtain b' w' hk' where s': "s' = (b', w', hk')" by (cases s')
    from Ps have p: "mods {} h hk" "locals (length h) hk b" "locals (length h) hk w"
      "length b = sz" "length w = sz" by (simp_all add: P_def s)
    from sgd_example_frame[OF step[unfolded s s'] p]
    show "P s'" by (simp add: P_def s')
  qed
  then show ?thesis by (simp add: P_def)
qed

lemma FeedForward_determined:
  assumes wf1: "wf_net h1 n szs" and wf2: "wf_net h2 n szs"
    and x1: "okd h1 x1" "Rows x1 = 1" "Cols x1 = szs ! 0"
    and x2: "okd h2 x2" "Rows x2 = 1" "Cols x2 = szs ! 0"
    and same: "params h1 n = params h2 n" "val h1 x1 = val h2 x2"
  shows "\<exists>o1 k1 o2 k2. FeedForward n x1 h1 = Inr (o1, k1) \<and> FeedForward n x2 h2 = Inr (o2, k2)
     \<and> val k1 o1 = val k2 o2"
proof -
  from FeedForward_total[OF wf1 x1] obtain o1 k1 where
    r1: "FeedForward n x1 h1 = Inr (o1, k1)"
    and v1: "val k1 o1 = act_at (params h1 n) (val h1 x1) (length szs - 1)" by blast
  from FeedForward_total[OF wf2 x2] obtain o2 k2 where
    r2: "FeedForward n x2 h2 = Inr (o2, k2)"
    and v2: "val k2 o2 = act_at (params h2 n) (val h2 x2) (length szs - 1)" by blast
  have "val k1 o1 = val k2 o2" unfolding v1 v2 same ..
  with r1 r2 show ?thesis by blast
qed

text \<open>
  Claim C9.  A call of FeedForward or of backpropagation that returns leaves every array
  that was in the store in place and unchanged: the store before the call is a prefix of
  the store after it, so the call has only added arrays.  The weights, the biases and the
  layer sizes are arrays of the store before the call; the headers of the network and its
  layer count are not among the results of the two functions.  This holds for every
  network, every argument and every store.

  The same holds inside a batch of SGD up to the update step: after the accumulators are
  allocated and any number \<open>j\<close> of examples are processed (backpropagation and the
  addition of its gradients), the store at the start of the batch is a prefix of the
  store reached.  Hence every backpropagation of the batch reads the parameters as they
  were at the start of the batch, and only the update step, which follows, writes them.

  FeedForward is determined by the values of the parameters and of the input: on two
  stores in which a network has the same parameter values, and on inputs of the same
  value, it returns outputs of the same value.
\<close>

theorem no_parameter_write:
  "(FeedForward n input h = Inr (out, h') \<longrightarrow> prefix h h')
   \<and> (backpropQuadCost n ex eta h = Inr (g, h'') \<longrightarrow> prefix h h'')
   \<and> (forM [0..<sz] (sgd_alloc n) (replicate sz zeroDense, replicate sz zeroDense, h)
         = Inr (nB, nW, h1)
       \<and> forM [0..<j] (sgd_example n data eta sz i) (nB, nW, h1) = Inr (nB', nW', hj)
       \<longrightarrow> prefix h hj)
   \<and> (wf_net k1 n szs \<and> wf_net k2 n szs
       \<and> okd k1 x1 \<and> Rows x1 = 1 \<and> Cols x1 = szs ! 0
       \<and> okd k2 x2 \<and> Rows x2 = 1 \<and> Cols x2 = szs ! 0
       \<and> params k1 n = params k2 n \<and> val k1 x1 = val k2 x2
       \<longrightarrow> (\<exists>o1 k1' o2 k2'. FeedForward n x1 k1 = Inr (o1, k1')
              \<and> FeedForward n x2 k2 = Inr (o2, k2') \<and> val k1' o1 = val k2' o2))"
proof (intro conjI impI)
  assume "FeedForward n input h = Inr (out, h')"
  then show "prefix h h'" using FeedForward_frame by (simp add: mods_empty_prefix[symmetric])
next
  assume r: "backpropQuadCost n ex eta h = Inr (g, h'')"
  obtain gB gW where "g = (gB, gW)" by (cases g)
  with r show "prefix h h''"
    using backpropQuadCost_frame(1) by (simp add: mods_empty_prefix[symmetric])
next
  assume "forM [0..<sz] (sgd_alloc n) (replicate sz zeroDense, replicate sz zeroDense, h)
         = Inr (nB, nW, h1)
       \<and> forM [0..<j] (sgd_example n data eta sz i) (nB, nW, h1) = Inr (nB', nW', hj)"
  then have "mods {} h hj" using sgd_accumulate_frame by blast
  then show "prefix h hj" by (simp add: mods_empty_prefix)
next
  assume a: "wf_net k1 n szs \<and> wf_net k2 n szs
       \<and> okd k1 x1 \<and> Rows x1 = 1 \<and> Cols x1 = szs ! 0
       \<and> okd k2 x2 \<and> Rows x2 = 1 \<and> Cols x2 = szs ! 0
       \<and> params k1 n = params k2 n \<and> val k1 x1 = val k2 x2"
  show "\<exists>o1 k1' o2 k2'. FeedForward n x1 k1 = Inr (o1, k1')
              \<and> FeedForward n x2 k2 = Inr (o2, k2') \<and> val k1' o1 = val k2' o2"
    by (rule FeedForward_determined[of k1 n szs k2 x1 x2]) (use a in simp_all)
qed

theorem no_parameter_write_witness:
  "\<exists>out h' g h'' nB nW h1 hj o1 k1' o2 k2'.
     FeedForward net3 (ex3 ! 0) h3 = Inr (out, h') \<and> prefix h3 h'
     \<and> backpropQuadCost net3 [ex3 ! 0, ex3 ! 1] 1 h3 = Inr (g, h'') \<and> prefix h3 h''
     \<and> forM [0..<2] (sgd_alloc net3) (replicate 2 zeroDense, replicate 2 zeroDense, h3)
         = Inr (nB, nW, h1)
     \<and> forM [0..<1] (sgd_example net3 [[ex3 ! 0, ex3 ! 1]] 1 2 0) (nB, nW, h1) = Inr (nB, nW, hj)
     \<and> prefix h3 hj
     \<and> FeedForward net3 (ex3 ! 0) h3 = Inr (o1, k1')
     \<and> FeedForward net3 (ex3 ! 0) h3 = Inr (o2, k2') \<and> val k1' o1 = val k2' o2"
proof -
  from FeedForward_total[OF wf_net3 ex3_ok(1,2,3)] obtain out h' where
    r1: "FeedForward net3 (ex3 ! 0) h3 = Inr (out, h')" by blast
  from backprop_total[OF wf_net3 ex3_ok(1,2,3,4,5,6), of 1] obtain gB gW h'' where
    r2: "backpropQuadCost net3 [ex3 ! 0, ex3 ! 1] 1 h3 = Inr ((gB, gW), h'')" by blast
  have L: "length [1, 2, 1 :: nat] = Suc 2" by simp
  from sgd_alloc_loop[OF wf_sizes3 L] obtain nB nW h1 where
    r3: "forM [0..<2] (sgd_alloc net3) (replicate 2 zeroDense, replicate 2 zeroDense, h3)
          = Inr (nB, nW, h1)"
    and m1: "mods {} h3 h1" and l1: "length h1 = length h3 + 2 * 2"
    and acc1: "accs h1 (length h3) [1, 2, 1] nB nW"
    and zero: "\<forall>i<2. val h1 (nW ! i) = mzero ([1, 2, 1] ! i) ([1, 2, 1] ! (i + 1))
            \<and> val h1 (nB ! i) = mzero 1 ([1, 2, 1] ! (i + 1))" by blast
  have len: "length h3 + 2 * 2 \<le> length h1" using l1 by simp
  have e: "\<forall>j<1. 0 + j < length [[ex3 ! 0, ex3 ! 1]]
              \<and> (\<exists>x y. [[ex3 ! 0, ex3 ! 1]] ! (0 + j) = [x, y]
              \<and> okd h3 x \<and> Rows x = 1 \<and> Cols x = [1, 2, 1] ! 0
              \<and> okd h3 y \<and> Rows y = 1 \<and> Cols y = [1, 2, 1] ! (length [1, 2, 1 :: nat] - 1))"
    using ex3_ok by auto
  from sgd_examples_loop[OF wf_net3 L m1 acc1 len zero e, of 1] obtain hj where
    r4: "forM [0..<1] (sgd_example net3 [[ex3 ! 0, ex3 ! 1]] 1 2 0) (nB, nW, h1)
          = Inr (nB, nW, hj)" by blast
  have sm: "params h3 net3 = params h3 net3" "val h3 (ex3 ! 0) = val h3 (ex3 ! 0)" by simp_all
  from no_parameter_write[where n = net3 and input = "ex3 ! 0" and h = h3 and out = out
      and h' = h' and ex = "[ex3 ! 0, ex3 ! 1]" and eta = 1 and g = "(gB, gW)" and h'' = h''
      and sz = 2 and nB = nB and nW = nW and ?h1.0 = h1 and j = 1 and data = "[[ex3 ! 0, ex3 ! 1]]"
      and i = 0 and nB' = nB and nW' = nW and hj = hj
      and ?k1.0 = h3 and ?k2.0 = h3 and szs = "[1, 2, 1]" and ?x1.0 = "ex3 ! 0" and ?x2.0 = "ex3 ! 0"]
    r1 r2 r3 r4 wf_net3 ex3_ok(1,2,3) sm
  show ?thesis by blast
qed

subsection \<open>The update of the last layer, from the values of the parameters and the examples\<close>

lemma wf_sizes_frame:
  assumes "wf_sizes h n szs" and "mods S h h'" and "addr (Sizes n) \<inter> S = {}"
  shows "wf_sizes h' n szs"
proof -
  have ok: "okd h (Sizes n)" using assms(1) by (simp add: wf_sizes_def)
  have "val h' (Sizes n) = val h (Sizes n)" using ok assms(2,3) by (rule val_mods)
  then show ?thesis using assms(1) okd_mods[OF ok assms(2)] by (simp add: wf_sizes_def)
qed

lemma run_gradient:
  assumes wf: "wf_net h n szs" and m: "mods {} h hj"
    and x: "okd h x" "Rows x = 1" "Cols x = szs ! 0"
    and y: "okd h y" "Rows y = 1" "Cols y = szs ! (length szs - 1)"
    and run: "backpropQuadCost n [x, y] eta hj = Inr ((gB, gW), hj')"
  shows "val hj' (gB ! (length szs - 2)) = out_delta (params h n) (val h x) (val h y) (length szs)"
    and "val hj' (gW ! (length szs - 2)) = out_gradW (params h n) (val h x) (val h y) (length szs)"
proof -
  have wfj: "wf_net hj n szs" using wf m by (rule wf_net_mods)
  have xj: "okd hj x" using x(1) m by (rule okd_mods)
  have yj: "okd hj y" using y(1) m by (rule okd_mods)
  have ps: "params hj n = params h n" using wf m by (rule params_mods)
  have vx: "val hj x = val h x" using x(1) m by (rule val_mods) simp
  have vy: "val hj y = val h y" using y(1) m by (rule val_mods) simp
  from backprop_total[OF wfj xj x(2,3) yj y(2,3), of eta] obtain nB nW h' where
    r: "backpropQuadCost n [x, y] eta hj = Inr ((nB, nW), h')"
    and vB: "val h' (nB ! (length szs - 2))
         = mhad (msub (act_at (params hj n) (val hj x) (length szs - 1)) (val hj y))
                (mapply sigmoidPrimeMatrix (z_at (params hj n) (val hj x) (length szs - 2)))"
    and vW: "val h' (nW ! (length szs - 2))
         = mmul (mtrans (act_at (params hj n) (val hj x) (length szs - 2)))
                (val h' (nB ! (length szs - 2)))"
    by blast
  from r run have e: "gB = nB" "gW = nW" "hj' = h'" by simp_all
  show "val hj' (gB ! (length szs - 2)) = out_delta (params h n) (val h x) (val h y) (length szs)"
    unfolding e vB ps vx vy out_delta_def ..
  show "val hj' (gW ! (length szs - 2)) = out_gradW (params h n) (val h x) (val h y) (length szs)"
    unfolding e vW vB ps vx vy out_gradW_def out_delta_def ..
qed

lemma grad_vals_last:
  assumes wf: "wf_net h n szs"
    and x: "okd h x" "Rows x = 1" "Cols x = szs ! 0"
    and y: "okd h y" "Rows y = 1" "Cols y = szs ! (length szs - 1)"
  shows "\<exists>gB gW. grad_vals n [x, y] eta h = Some (gB, gW)
     \<and> gB ! (length szs - 2) = out_delta (params h n) (val h x) (val h y) (length szs)
     \<and> gW ! (length szs - 2) = out_gradW (params h n) (val h x) (val h y) (length szs)"
proof -
  from backprop_total[OF wf x y, of eta] obtain nB nW h' where
    r: "backpropQuadCost n [x, y] eta h = Inr ((nB, nW), h')"
    and g: "wf_grads h' szs nB nW" by blast
  have L: "2 \<le> length szs" using wf by (simp add: wf_net_def)
  have k: "length szs - 2 < length nB" "length szs - 2 < length nW"
    using g L by (simp_all add: wf_grads_def)
  note v = run_gradient[OF wf mods_refl x y r]
  show ?thesis using grad_vals_run[OF r] k v by simp
qed

lemma sgd_batch_last_layer:
  assumes wf: "wf_net h n szs" and ws: "wf_sizes h n szs" and ap: "params_apart n"
    and bs': "bs' = (if int (length data) - int i * bs < bs
                    then int (length data) - int i * bs else bs)"
    and ex: "\<forall>j<nat bs'. i + j < length data \<and> (\<exists>x y. data ! (i + j) = [x, y]
              \<and> okd h x \<and> Rows x = 1 \<and> Cols x = szs ! 0
              \<and> okd h y \<and> Rows y = 1 \<and> Cols y = szs ! (length szs - 1))"
  shows "\<exists>h'. sgd_batch n data eta (length szs - 1) i (bs, h) = Inr (bs', h')
     \<and> mods (paddr n) h h'
     \<and> val h' (Weights n ! (length szs - 2))
         = msub (val h (Weights n ! (length szs - 2)))
             (mscale (eta / of_int bs')
                (msum (szs ! (length szs - 2)) (szs ! (length szs - 1))
                   (map (\<lambda>e. out_gradW (params h n) (val h (e ! 0)) (val h (e ! 1)) (length szs))
                        (map (\<lambda>j. data ! (i + j)) [0..<nat bs']))))
     \<and> val h' (Biases n ! (length szs - 2))
         = msub (val h (Biases n ! (length szs - 2)))
             (mscale (eta / of_int bs')
                (msum 1 (szs ! (length szs - 1))
                   (map (\<lambda>e. out_delta (params h n) (val h (e ! 0)) (val h (e ! 1)) (length szs))
                        (map (\<lambda>j. data ! (i + j)) [0..<nat bs']))))"
proof -
  let ?es = "map (\<lambda>j. data ! (i + j)) [0..<nat bs']"
  let ?k = "length szs - 2"
  have L: "2 \<le> length szs" using wf by (simp add: wf_net_def)
  have k: "?k < length szs - 1" and k1: "?k + 1 = length szs - 1" using L by simp_all
  from sgd_batch_total[OF wf ws ap bs' ex, of eta] obtain h' runs where
    run: "sgd_batch n data eta (length szs - 1) i (bs, h) = Inr (bs', h')"
    and m: "mods (paddr n) h h'"
    and br: "example_runs n ?es eta h runs"
    and upd: "\<And>k. k < length szs - 1 \<Longrightarrow>
          val h' (Weights n ! k)
            = msub (val h (Weights n ! k))
                (mscale (eta / of_int bs') (msum (szs ! k) (szs ! (k + 1)) (map (gradW k) runs)))
          \<and> val h' (Biases n ! k)
            = msub (val h (Biases n ! k))
                (mscale (eta / of_int bs') (msum 1 (szs ! (k + 1)) (map (gradB k) runs)))"
    by blast
  have lr: "length runs = length ?es" using br by (simp add: example_runs_def)
  have each: "gradW ?k (runs ! j)
        = out_gradW (params h n) (val h (?es ! j ! 0)) (val h (?es ! j ! 1)) (length szs)
      \<and> gradB ?k (runs ! j)
        = out_delta (params h n) (val h (?es ! j ! 0)) (val h (?es ! j ! 1)) (length szs)"
    if j: "j < length ?es" for j
  proof -
    have jb: "j < nat bs'" using j by simp
    have ej: "?es ! j = data ! (i + j)" using jb by simp
    from ex jb obtain x y where e: "data ! (i + j) = [x, y]"
      and x: "okd h x" "Rows x = 1" "Cols x = szs ! 0"
      and y: "okd h y" "Rows y = 1" "Cols y = szs ! (length szs - 1)" by blast
    obtain hj gB gW hj' where r: "runs ! j = (hj, ((gB, gW), hj'))"
      by (metis prod.exhaust)
    from br j have p: "prefix h (fst (runs ! j))"
      and b: "backpropQuadCost n (?es ! j) eta (fst (runs ! j)) = Inr (snd (runs ! j))"
      by (simp_all add: example_runs_def)
    have mj: "mods {} h hj" using p by (simp add: r mods_empty_prefix)
    have bj: "backpropQuadCost n [x, y] eta hj = Inr ((gB, gW), hj')"
      using b by (simp add: r ej e)
    note v = run_gradient[OF wf mj x y bj]
    show ?thesis using v by (simp add: gradW_def gradB_def r ej e)
  qed
  have gW: "map (gradW ?k) runs
      = map (\<lambda>e. out_gradW (params h n) (val h (e ! 0)) (val h (e ! 1)) (length szs)) ?es"
    using lr each by (intro nth_equalityI) simp_all
  have gB: "map (gradB ?k) runs
      = map (\<lambda>e. out_delta (params h n) (val h (e ! 0)) (val h (e ! 1)) (length szs)) ?es"
    using lr each by (intro nth_equalityI) simp_all
  show ?thesis
    by (rule exI[of _ h']) (use run m upd[OF k] in \<open>simp only: gW gB k1 simp_thms\<close>)
qed

subsection \<open>A two-layer network and four examples\<close>

lemma row1_ops:
  "msum 1 1 [row1 a, row1 b] = row1 (a + b)"
  "msub (row1 w) (mscale s (row1 g)) = row1 (w - s * g)"
  by (simp_all add: msum_def mzero_def mscale_def row_ops)

lemma grad2:
  "out_delta [(row1 0, row1 0)] (row1 x) (row1 y) 2 = row1 ((1 / 2 - y) / 4)"
  "out_gradW [(row1 0, row1 0)] (row1 x) (row1 y) 2 = row1 (x * ((1 / 2 - y) / 4))"
proof -
  have z: "z_at [(row1 0, row1 0)] (row1 x) 0 = row1 0"
    by (simp add: z_at_def) (simp add: row_ops)
  have a: "act_at [(row1 0, row1 0)] (row1 x) (Suc 0) = row1 (1 / 2)"
    unfolding act_at_Suc z by (simp add: row_ops)
  have a0: "act_at [(row1 0, row1 0)] (row1 x) 0 = row1 x" by simp
  show d: "out_delta [(row1 0, row1 0)] (row1 x) (row1 y) 2 = row1 ((1 / 2 - y) / 4)"
    unfolding out_delta_def by (simp del: act_at.simps add: a z) (simp add: row_ops)
  show "out_gradW [(row1 0, row1 0)] (row1 x) (row1 y) 2 = row1 (x * ((1 / 2 - y) / 4))"
    unfolding out_gradW_def d by (simp del: act_at.simps add: a0) (simp add: row_ops)
qed

lemma wf_net2: "wf_net store2 net2 [1, 1]"
  by (simp add: wf_net_def net2_def store2_def okd_hdr_iff)

lemma wf_sizes2: "wf_sizes store2 net2 [1, 1]"
  by (simp add: wf_sizes_def net2_def store2_def okd_hdr_iff val_hdr)

lemma params_apart2: "params_apart net2"
  by (simp add: params_apart_def net2_def)

lemma paddr2: "paddr net2 = {1, 2}"
  by (auto simp: paddr_def net2_def)

lemma data2_nth:
  "data2 ! 0 = [hdr 1 1 (Slice 3 1), hdr 1 1 (Slice 4 1)]"
  "data2 ! 1 = [hdr 1 1 (Slice 5 1), hdr 1 1 (Slice 6 1)]"
  "data2 ! 2 = [hdr 1 1 (Slice 7 1), hdr 1 1 (Slice 8 1)]"
  "data2 ! 3 = [hdr 1 1 (Slice 9 1), hdr 1 1 (Slice 10 1)]"
  "length data2 = 4"
  by (simp_all add: data2_def)

lemma cell2:
  assumes m: "mods {1, 2} store2 h" and a: "a < length store2" "store2 ! a = [v]" "a \<notin> {1, 2}"
  shows "okd h (hdr 1 1 (Slice a 1))" "val h (hdr 1 1 (Slice a 1)) = row1 v"
proof -
  have ok: "okd store2 (hdr 1 1 (Slice a 1))" using a by (simp add: okd_hdr_iff)
  have v: "val store2 (hdr 1 1 (Slice a 1)) = row1 v" using a by (simp add: val_hdr row1_def)
  have "val h (hdr 1 1 (Slice a 1)) = val store2 (hdr 1 1 (Slice a 1))"
    using ok m by (rule val_mods) (use a in simp)
  then show "val h (hdr 1 1 (Slice a 1)) = row1 v" using v by simp
  show "okd h (hdr 1 1 (Slice a 1))" using ok m by (rule okd_mods)
qed

lemma net2_state:
  assumes m: "mods {1, 2} store2 h"
    and W: "val h (Weights net2 ! 0) = row1 0" and B: "val h (Biases net2 ! 0) = row1 0"
  shows "wf_net h net2 [1, 1]" "wf_sizes h net2 [1, 1]" "params h net2 = [(row1 0, row1 0)]"
proof -
  show "wf_net h net2 [1, 1]" using wf_net2 m by (rule wf_net_mods)
  show "wf_sizes h net2 [1, 1]" using wf_sizes2 m by (rule wf_sizes_frame) (simp add: net2_def)
  show "params h net2 = [(row1 0, row1 0)]"
    using W B by (simp add: params_def net2_def)
qed

lemma data2_cells:
  assumes m: "mods {1, 2} store2 h"
  shows "okd h (hdr 1 1 (Slice 3 1))" "val h (hdr 1 1 (Slice 3 1)) = row1 1"
    "okd h (hdr 1 1 (Slice 4 1))" "val h (hdr 1 1 (Slice 4 1)) = row1 1"
    "okd h (hdr 1 1 (Slice 5 1))" "val h (hdr 1 1 (Slice 5 1)) = row1 1"
    "okd h (hdr 1 1 (Slice 6 1))" "val h (hdr 1 1 (Slice 6 1)) = row1 0"
    "okd h (hdr 1 1 (Slice 7 1))" "val h (hdr 1 1 (Slice 7 1)) = row1 2"
    "okd h (hdr 1 1 (Slice 8 1))" "val h (hdr 1 1 (Slice 8 1)) = row1 (1 / 2)"
    "okd h (hdr 1 1 (Slice 9 1))" "val h (hdr 1 1 (Slice 9 1)) = row1 2"
    "okd h (hdr 1 1 (Slice 10 1))" "val h (hdr 1 1 (Slice 10 1)) = row1 1"
  using cell2[OF m, of 3 1] cell2[OF m, of 4 1] cell2[OF m, of 5 1] cell2[OF m, of 6 0]
    cell2[OF m, of 7 2] cell2[OF m, of 8 "1 / 2"] cell2[OF m, of 9 2] cell2[OF m, of 10 1]
  by (simp_all add: store2_def)

lemma data2_example:
  assumes m: "mods {1, 2} store2 h" and k: "k < 4"
  shows "\<exists>x y. data2 ! k = [x, y] \<and> okd h x \<and> Rows x = 1 \<and> Cols x = [1, 1] ! 0
     \<and> okd h y \<and> Rows y = 1 \<and> Cols y = [1, 1] ! (length [1, 1 :: nat] - 1)"
proof -
  from k consider "k = 0" | "k = 1" | "k = 2" | "k = 3" by linarith
  then show ?thesis
    using data2_cells[OF m] by cases (simp_all add: data2_def)
qed

lemma net2_init:
  "val store2 (Weights net2 ! 0) = row1 0" "val store2 (Biases net2 ! 0) = row1 0"
  by (simp_all add: net2_def store2_def val_hdr row1_def)

lemma net2_batch:
  assumes m: "mods {1, 2} store2 h"
    and W: "val h (Weights net2 ! 0) = row1 0" and B: "val h (Biases net2 ! 0) = row1 0"
    and i: "i < 2"
  shows "\<exists>h'. sgd_batch net2 data2 (1 / 2) 1 i (2, h) = Inr (2, h') \<and> mods {1, 2} store2 h'
     \<and> val h' (Weights net2 ! 0)
         = msub (row1 0) (mscale (1 / 4) (msum 1 1
             [out_gradW [(row1 0, row1 0)] (val h (data2 ! i ! 0)) (val h (data2 ! i ! 1)) 2,
              out_gradW [(row1 0, row1 0)] (val h (data2 ! (i + 1) ! 0))
                (val h (data2 ! (i + 1) ! 1)) 2]))
     \<and> val h' (Biases net2 ! 0)
         = msub (row1 0) (mscale (1 / 4) (msum 1 1
             [out_delta [(row1 0, row1 0)] (val h (data2 ! i ! 0)) (val h (data2 ! i ! 1)) 2,
              out_delta [(row1 0, row1 0)] (val h (data2 ! (i + 1) ! 0))
                (val h (data2 ! (i + 1) ! 1)) 2]))"
proof -
  note st = net2_state[OF m W B]
  have bs: "(2::int) = (if int (length data2) - int i * 2 < 2
                       then int (length data2) - int i * 2 else 2)"
    using i by (simp add: data2_nth)
  have ex: "\<forall>j<nat 2. i + j < length data2 \<and> (\<exists>x y. data2 ! (i + j) = [x, y]
              \<and> okd h x \<and> Rows x = 1 \<and> Cols x = [1, 1] ! 0
              \<and> okd h y \<and> Rows y = 1 \<and> Cols y = [1, 1] ! (length [1, 1 :: nat] - 1))"
  proof (intro allI impI conjI)
    fix j :: nat
    assume "j < nat 2"
    then have k: "i + j < 4" using i by simp
    then show "i + j < length data2" by (simp add: data2_nth)
    show "\<exists>x y. data2 ! (i + j) = [x, y]
              \<and> okd h x \<and> Rows x = 1 \<and> Cols x = [1, 1] ! 0
              \<and> okd h y \<and> Rows y = 1 \<and> Cols y = [1, 1] ! (length [1, 1 :: nat] - 1)"
      using m k by (rule data2_example)
  qed
  have es: "map (\<lambda>j. data2 ! (i + j)) [0..<nat 2] = [data2 ! i, data2 ! (i + 1)]"
    by (simp add: upt_2)
  from sgd_batch_last_layer[OF st(1,2) params_apart2 bs ex, of "1 / 2"] obtain h' where
    run: "sgd_batch net2 data2 (1 / 2) (length [1, 1 :: nat] - 1) i (2, h) = Inr (2, h')"
    and m': "mods (paddr net2) h h'"
    and vW: "val h' (Weights net2 ! (length [1, 1 :: nat] - 2))
         = msub (val h (Weights net2 ! (length [1, 1 :: nat] - 2)))
             (mscale (1 / 2 / of_int 2)
                (msum ([1, 1] ! (length [1, 1 :: nat] - 2)) ([1, 1] ! (length [1, 1 :: nat] - 1))
                   (map (\<lambda>e. out_gradW (params h net2) (val h (e ! 0)) (val h (e ! 1))
                                (length [1, 1 :: nat]))
                        (map (\<lambda>j. data2 ! (i + j)) [0..<nat 2]))))"
    and vB: "val h' (Biases net2 ! (length [1, 1 :: nat] - 2))
         = msub (val h (Biases net2 ! (length [1, 1 :: nat] - 2)))
             (mscale (1 / 2 / of_int 2)
                (msum 1 ([1, 1] ! (length [1, 1 :: nat] - 1))
                   (map (\<lambda>e. out_delta (params h net2) (val h (e ! 0)) (val h (e ! 1))
                                (length [1, 1 :: nat]))
                        (map (\<lambda>j. data2 ! (i + j)) [0..<nat 2]))))"
    by blast
  have run': "sgd_batch net2 data2 (1 / 2) 1 i (2, h) = Inr (2, h')" using run by simp
  have mm: "mods {1, 2} store2 h'" using mods_trans[OF m m'[unfolded paddr2]] by simp
  have vW': "val h' (Weights net2 ! 0)
         = msub (row1 0) (mscale (1 / 4) (msum 1 1
             [out_gradW [(row1 0, row1 0)] (val h (data2 ! i ! 0)) (val h (data2 ! i ! 1)) 2,
              out_gradW [(row1 0, row1 0)] (val h (data2 ! (i + 1) ! 0))
                (val h (data2 ! (i + 1) ! 1)) 2]))"
    using vW unfolding es st(3) by (simp add: W numeral_2_eq_2)
  have vB': "val h' (Biases net2 ! 0)
         = msub (row1 0) (mscale (1 / 4) (msum 1 1
             [out_delta [(row1 0, row1 0)] (val h (data2 ! i ! 0)) (val h (data2 ! i ! 1)) 2,
              out_delta [(row1 0, row1 0)] (val h (data2 ! (i + 1) ! 0))
                (val h (data2 ! (i + 1) ! 1)) 2]))"
    using vB unfolding es st(3) by (simp add: B numeral_2_eq_2)
  show ?thesis using run' mm vW' vB' by blast
qed

lemma net2_nth:
  "data2 ! 0 ! 0 = hdr 1 1 (Slice 3 1)" "data2 ! 0 ! 1 = hdr 1 1 (Slice 4 1)"
  "data2 ! 1 ! 0 = hdr 1 1 (Slice 5 1)" "data2 ! 1 ! 1 = hdr 1 1 (Slice 6 1)"
  "data2 ! 2 ! 0 = hdr 1 1 (Slice 7 1)" "data2 ! 2 ! 1 = hdr 1 1 (Slice 8 1)"
  "data2 ! 3 ! 0 = hdr 1 1 (Slice 9 1)" "data2 ! 3 ! 1 = hdr 1 1 (Slice 10 1)"
  by (simp_all add: data2_def)

lemma net2_batch0:
  "\<exists>ha. sgd_batch net2 data2 (1 / 2) 1 0 (2, store2) = Inr (2, ha) \<and> mods {1, 2} store2 ha
     \<and> val ha (Weights net2 ! 0) = row1 0 \<and> val ha (Biases net2 ! 0) = row1 0"
proof -
  note c = data2_cells[OF mods_refl]
  have i0: "(0::nat) < 2" by simp
  from net2_batch[OF mods_refl net2_init i0] obtain ha where
    run: "sgd_batch net2 data2 (1 / 2) 1 0 (2, store2) = Inr (2, ha)"
    and m: "mods {1, 2} store2 ha"
    and vW: "val ha (Weights net2 ! 0)
         = msub (row1 0) (mscale (1 / 4) (msum 1 1
             [out_gradW [(row1 0, row1 0)] (val store2 (data2 ! 0 ! 0)) (val store2 (data2 ! 0 ! 1)) 2,
              out_gradW [(row1 0, row1 0)] (val store2 (data2 ! (0 + 1) ! 0))
                (val store2 (data2 ! (0 + 1) ! 1)) 2]))"
    and vB: "val ha (Biases net2 ! 0)
         = msub (row1 0) (mscale (1 / 4) (msum 1 1
             [out_delta [(row1 0, row1 0)] (val store2 (data2 ! 0 ! 0)) (val store2 (data2 ! 0 ! 1)) 2,
              out_delta [(row1 0, row1 0)] (val store2 (data2 ! (0 + 1) ! 0))
                (val store2 (data2 ! (0 + 1) ! 1)) 2]))"
    by blast
  have e: "(0::nat) + 1 = 1" by simp
  have W: "val ha (Weights net2 ! 0) = row1 0"
    unfolding vW e net2_nth c grad2 row1_ops by simp
  have B: "val ha (Biases net2 ! 0) = row1 0"
    unfolding vB e net2_nth c grad2 row1_ops by simp
  show ?thesis using run m W B by blast
qed

lemma net2_batch1:
  assumes m: "mods {1, 2} store2 ha"
    and W: "val ha (Weights net2 ! 0) = row1 0" and B: "val ha (Biases net2 ! 0) = row1 0"
  shows "\<exists>hb. sgd_batch net2 data2 (1 / 2) 1 1 (2, ha) = Inr (2, hb)
     \<and> val hb (Weights net2 ! 0) = row1 (- 1 / 32) \<and> val hb (Biases net2 ! 0) = row1 (- 1 / 32)"
proof -
  note c = data2_cells[OF m]
  have i1: "(1::nat) < 2" by simp
  from net2_batch[OF m W B i1] obtain hb where
    run: "sgd_batch net2 data2 (1 / 2) 1 1 (2, ha) = Inr (2, hb)"
    and vW: "val hb (Weights net2 ! 0)
         = msub (row1 0) (mscale (1 / 4) (msum 1 1
             [out_gradW [(row1 0, row1 0)] (val ha (data2 ! 1 ! 0)) (val ha (data2 ! 1 ! 1)) 2,
              out_gradW [(row1 0, row1 0)] (val ha (data2 ! (1 + 1) ! 0))
                (val ha (data2 ! (1 + 1) ! 1)) 2]))"
    and vB: "val hb (Biases net2 ! 0)
         = msub (row1 0) (mscale (1 / 4) (msum 1 1
             [out_delta [(row1 0, row1 0)] (val ha (data2 ! 1 ! 0)) (val ha (data2 ! 1 ! 1)) 2,
              out_delta [(row1 0, row1 0)] (val ha (data2 ! (1 + 1) ! 0))
                (val ha (data2 ! (1 + 1) ! 1)) 2]))"
    by blast
  have e: "(1::nat) + 1 = 2" by simp
  have W': "val hb (Weights net2 ! 0) = row1 (- 1 / 32)"
    unfolding vW e net2_nth c grad2 row1_ops by simp
  have B': "val hb (Biases net2 ! 0) = row1 (- 1 / 32)"
    unfolding vB e net2_nth c grad2 row1_ops by simp
  show ?thesis using run W' B' by blast
qed

lemma net2_SGD:
  assumes r0: "sgd_batch net2 data2 (1 / 2) 1 0 (2, store2) = Inr (2, ha)"
    and r1: "sgd_batch net2 data2 (1 / 2) 1 1 (2, ha) = Inr (2, hb)"
  shows "SGD net2 data2 (1 / 2) 2 None store2 = Inr (None, hb)"
proof -
  have nl: "NumLayers net2 = 2" by (simp add: net2_def)
  have it: "int (length data2) sdiv 2 = 2" "int (length data2) smod 2 = 0"
    by (simp_all add: data2_nth signed_divide_int_def signed_modulo_int_def)
  have two: "[0..<2] = [0, Suc 0]" by (simp add: upt_rec)
  have r1': "sgd_batch net2 data2 (1 / 2) (Suc 0) (Suc 0) (2, ha) = Inr (2, hb)"
    using r1 by simp
  have r0': "sgd_batch net2 data2 (1 / 2) (Suc 0) 0 (2, store2) = Inr (2, ha)"
    using r0 by simp
  show ?thesis by (simp add: SGD_def nl it two r0' r1')
qed

lemma spec_batch2: "spec_batch data2 2 1 = [data2 ! 2, data2 ! 3]"
  by (simp add: spec_batch_def data2_def)

lemma net2_grad_vals:
  assumes m: "mods {1, 2} store2 ha"
    and W: "val ha (Weights net2 ! 0) = row1 0" and B: "val ha (Biases net2 ! 0) = row1 0"
    and k: "k < 4"
  shows "fst (the (grad_vals net2 (data2 ! k) eta ha)) ! 0
         = out_delta [(row1 0, row1 0)] (val ha (data2 ! k ! 0)) (val ha (data2 ! k ! 1)) 2"
    and "snd (the (grad_vals net2 (data2 ! k) eta ha)) ! 0
         = out_gradW [(row1 0, row1 0)] (val ha (data2 ! k ! 0)) (val ha (data2 ! k ! 1)) 2"
proof -
  note st = net2_state[OF m W B]
  from data2_example[OF m k] obtain x y where e: "data2 ! k = [x, y]"
    and x: "okd ha x" "Rows x = 1" "Cols x = [1, 1] ! 0"
    and y: "okd ha y" "Rows y = 1" "Cols y = [1, 1] ! (length [1, 1 :: nat] - 1)" by blast
  from grad_vals_last[OF st(1) x y, of eta] obtain gB gW where
    g: "grad_vals net2 [x, y] eta ha = Some (gB, gW)"
    and vB: "gB ! (length [1, 1 :: nat] - 2)
        = out_delta (params ha net2) (val ha x) (val ha y) (length [1, 1 :: nat])"
    and vW: "gW ! (length [1, 1 :: nat] - 2)
        = out_gradW (params ha net2) (val ha x) (val ha y) (length [1, 1 :: nat])"
    by blast
  show "fst (the (grad_vals net2 (data2 ! k) eta ha)) ! 0
         = out_delta [(row1 0, row1 0)] (val ha (data2 ! k ! 0)) (val ha (data2 ! k ! 1)) 2"
    using vB by (simp add: e g st(3) numeral_2_eq_2)
  show "snd (the (grad_vals net2 (data2 ! k) eta ha)) ! 0
         = out_gradW [(row1 0, row1 0)] (val ha (data2 ! k ! 0)) (val ha (data2 ! k ! 1)) 2"
    using vW by (simp add: e g st(3) numeral_2_eq_2)
qed

text \<open>
  Claim C4 fails on the code.  The accumulators are zeroed, the gradients of the
  examples that the loop reads are added, and every parameter is updated by
  \<open>eta / actualBatchSize\<close> times the sum; but iteration \<open>i\<close> reads \<^verbatim>\<open>data[i+j]\<close>, so from
  the second batch on the gradients added are not those of the examples of the batch.

  First, for every network, store and learning rate: on four examples with batch size 2,
  iteration 1 does not depend on example 3, an example of batch 1.

  Second, a run of SGD on the two-layer network \<open>net2\<close> (sizes 1 and 1, \<open>W = [0]\<close>,
  \<open>B = [0]\<close>), the four examples \<open>data2\<close> with inputs 1, 1, 2, 2 and desired outputs
  1, 0, 1/2, 1, learning rate 1/2 and batch size 2.  Batch 0 leaves the parameters as
  they are (the two gradients cancel).  Batch 1 is the examples 2 and 3
  (\<open>spec_batch data2 2 1\<close>); by the claim, with the gradients that backpropagation
  returns for them at the start of the batch, \<open>W\<close> becomes 1/16 and \<open>B\<close> becomes 1/32
  (\<open>spec_W\<close>, \<open>spec_B\<close>).  The code returns \<open>W = -1/32\<close> and \<open>B = -1/32\<close>, which is
  the claim's update computed from the examples 1 and 2.
\<close>

theorem SGD_batch_wrong_examples:
  "sgd_batch n [e0, e1, e2, x] eta sz 1 (2, h) = sgd_batch n [e0, e1, e2, y] eta sz 1 (2, h)
   \<and> (\<exists>ha hb. sgd_batch net2 data2 (1 / 2) 1 0 (2, store2) = Inr (2, ha)
        \<and> sgd_batch net2 data2 (1 / 2) 1 1 (2, ha) = Inr (2, hb)
        \<and> SGD net2 data2 (1 / 2) 2 None store2 = Inr (None, hb)
        \<and> val ha (Weights net2 ! 0) = row1 0 \<and> val ha (Biases net2 ! 0) = row1 0
        \<and> val hb (Weights net2 ! 0) = row1 (- 1 / 32)
        \<and> val hb (Biases net2 ! 0) = row1 (- 1 / 32)
        \<and> spec_batch data2 2 1 = [data2 ! 2, data2 ! 3]
        \<and> spec_W net2 (spec_batch data2 2 1) (1 / 2) ha 0 = row1 (1 / 16)
        \<and> spec_B net2 (spec_batch data2 2 1) (1 / 2) ha 0 = row1 (1 / 32)
        \<and> spec_W net2 [data2 ! 1, data2 ! 2] (1 / 2) ha 0 = row1 (- 1 / 32)
        \<and> spec_B net2 [data2 ! 1, data2 ! 2] (1 / 2) ha 0 = row1 (- 1 / 32))"
proof (rule conjI)
  have "(1::nat) < 2" by simp
  then show "sgd_batch n [e0, e1, e2, x] eta sz 1 (2, h)
      = sgd_batch n [e0, e1, e2, y] eta sz 1 (2, h)"
    by (rule sgd_batch_last)
next
  from net2_batch0 obtain ha where
    r0: "sgd_batch net2 data2 (1 / 2) 1 0 (2, store2) = Inr (2, ha)"
    and m: "mods {1, 2} store2 ha"
    and W: "val ha (Weights net2 ! 0) = row1 0" and B: "val ha (Biases net2 ! 0) = row1 0"
    by blast
  from net2_batch1[OF m W B] obtain hb where
    r1: "sgd_batch net2 data2 (1 / 2) 1 1 (2, ha) = Inr (2, hb)"
    and W': "val hb (Weights net2 ! 0) = row1 (- 1 / 32)"
    and B': "val hb (Biases net2 ! 0) = row1 (- 1 / 32)" by blast
  note run = net2_SGD[OF r0 r1]
  note c = data2_cells[OF m]
  have k: "(1::nat) < 4" "(2::nat) < 4" "(3::nat) < 4" by simp_all
  note g1 = net2_grad_vals[OF m W B k(1), of "1 / 2"]
  note g2 = net2_grad_vals[OF m W B k(2), of "1 / 2"]
  note g3 = net2_grad_vals[OF m W B k(3), of "1 / 2"]
  have d: "Rows (Weights net2 ! 0) = 1" "Cols (Weights net2 ! 0) = 1"
    "Rows (Biases net2 ! 0) = 1" "Cols (Biases net2 ! 0) = 1"
    by (simp_all add: net2_def)
  have l: "real (length [data2 ! 2, data2 ! 3]) = 2" "real (length [data2 ! 1, data2 ! 2]) = 2"
    by simp_all
  have sW: "spec_W net2 (spec_batch data2 2 1) (1 / 2) ha 0 = row1 (1 / 16)"
    unfolding spec_batch2 spec_W_def spec_nablaW_def list.map g2 g3 d W l net2_nth c grad2 row1_ops
    by simp
  have sB: "spec_B net2 (spec_batch data2 2 1) (1 / 2) ha 0 = row1 (1 / 32)"
    unfolding spec_batch2 spec_B_def spec_nablaB_def list.map g2 g3 d B l net2_nth c grad2 row1_ops
    by simp
  have cW: "spec_W net2 [data2 ! 1, data2 ! 2] (1 / 2) ha 0 = row1 (- 1 / 32)"
    unfolding spec_W_def spec_nablaW_def list.map g1 g2 d W l net2_nth c grad2 row1_ops
    by simp
  have cB: "spec_B net2 [data2 ! 1, data2 ! 2] (1 / 2) ha 0 = row1 (- 1 / 32)"
    unfolding spec_B_def spec_nablaB_def list.map g1 g2 d B l net2_nth c grad2 row1_ops
    by simp
  show "\<exists>ha hb. sgd_batch net2 data2 (1 / 2) 1 0 (2, store2) = Inr (2, ha)
        \<and> sgd_batch net2 data2 (1 / 2) 1 1 (2, ha) = Inr (2, hb)
        \<and> SGD net2 data2 (1 / 2) 2 None store2 = Inr (None, hb)
        \<and> val ha (Weights net2 ! 0) = row1 0 \<and> val ha (Biases net2 ! 0) = row1 0
        \<and> val hb (Weights net2 ! 0) = row1 (- 1 / 32)
        \<and> val hb (Biases net2 ! 0) = row1 (- 1 / 32)
        \<and> spec_batch data2 2 1 = [data2 ! 2, data2 ! 3]
        \<and> spec_W net2 (spec_batch data2 2 1) (1 / 2) ha 0 = row1 (1 / 16)
        \<and> spec_B net2 (spec_batch data2 2 1) (1 / 2) ha 0 = row1 (1 / 32)
        \<and> spec_W net2 [data2 ! 1, data2 ! 2] (1 / 2) ha 0 = row1 (- 1 / 32)
        \<and> spec_B net2 [data2 ! 1, data2 ! 2] (1 / 2) ha 0 = row1 (- 1 / 32)"
    by (rule exI[of _ ha], rule exI[of _ hb])
      (simp only: r0 r1 run W B W' B' spec_batch2 sW[unfolded spec_batch2] sB[unfolded spec_batch2]
         cW cB simp_thms)
qed

end
